theory Spec2Isabelle
  imports Complex_Main
begin

section \<open>JavaScript numbers: binary64 division, multiplication and \<open>Math.round\<close>\<close>

text \<open>
  The quiz page computes its percentage as \<open>Math.round((correct / total) * 100)\<close>.
  Both operands of the division are array counts, the quotient lies in \<open>[0, 1]\<close> and the
  product in \<open>[0, 100]\<close>, so only finite non-negative binary64 values occur and neither
  overflow nor subnormal results arise. Such a value is kept exactly, as a mantissa and a
  binary exponent; each operation rounds the exact result to 53 significant bits, ties to
  even, as IEEE 754 prescribes.
\<close>

datatype double = Double (mant: nat) (expo: int)
  \<comment> \<open>the value \<open>mant * 2 ^ expo\<close>\<close>

fun bits :: "nat \<Rightarrow> nat" where
  "bits n = (if n = 0 then 0 else Suc (bits (n div 2)))"

declare bits.simps [simp del]

definition nearest_even :: "nat \<Rightarrow> nat \<Rightarrow> nat" where
  \<comment> \<open>the integer nearest to \<open>num / den\<close>, a tie going to the even neighbour\<close>
  "nearest_even num den =
     (let m = num div den; r = num mod den
      in if 2 * r < den \<or> (2 * r = den \<and> even m) then m else m + 1)"

definition binary_exponent :: "nat \<Rightarrow> nat \<Rightarrow> int" where
  \<comment> \<open>\<open>floor (log2 (p / q))\<close> for \<open>p, q > 0\<close>: \<open>p / q\<close> lies between \<open>2 ^ (k - 1)\<close> and
      \<open>2 ^ (k + 1)\<close> for the difference \<open>k\<close> of the bit lengths\<close>
  "binary_exponent p q =
     (let k = int (bits p) - int (bits q)
      in if q * 2 ^ nat k \<le> p * 2 ^ nat (- k) then k else k - 1)"

definition round_binary64 :: "nat \<Rightarrow> nat \<Rightarrow> double" where
  \<comment> \<open>the binary64 value nearest to \<open>p / q\<close> (for \<open>q > 0\<close>): the quotient is scaled
      into \<open>[2^52, 2^53)\<close> and rounded to an integer mantissa\<close>
  "round_binary64 p q =
     (if p = 0 then Double 0 0
      else let e = binary_exponent p q - 52
           in Double (nearest_even (p * 2 ^ nat (- e)) (q * 2 ^ nat e)) e)"

definition double_div :: "nat \<Rightarrow> nat \<Rightarrow> double" where
  \<comment> \<open>\<open>a / b\<close> on two integers, \<open>b > 0\<close>\<close>
  "double_div a b = round_binary64 a b"

definition double_mul :: "double \<Rightarrow> nat \<Rightarrow> double" where
  \<comment> \<open>\<open>x * n\<close> for an integer \<open>n\<close>\<close>
  "double_mul x n =
     (case round_binary64 (mant x * n) 1 of Double m e \<Rightarrow> Double m (e + expo x))"

definition Math_round :: "double \<Rightarrow> int" where
  \<comment> \<open>\<open>Math.round\<close>: the integer nearest to the value, a tie going up, \<open>floor (x + 1/2)\<close>\<close>
  "Math_round x =
     (if 0 \<le> expo x then int (mant x * 2 ^ nat (expo x))
      else int ((2 * mant x + 2 ^ nat (- expo x)) div 2 ^ nat (1 - expo x)))"

section \<open>The quiz page\<close>

subsection \<open>Data\<close>

record question =
  question_q :: string
  options :: "string list"
  answerIndex :: nat

text \<open>
  Of a passage the quiz logic reads the id, the time limit in minutes and the questions;
  title, subject, difficulty, category and text only feed the page's markup.
\<close>

record passage =
  passage_id :: string
  passage_timeLimit :: int
  questions :: "question list"

record breakdown_item =
  item_question :: string
  userAnswer :: "string option"
  correctAnswer :: "string option"
  isCorrect :: bool

record results =
  correct :: nat
  total :: nat
  percentage :: "int option"
  timeElapsed :: int
  breakdown :: "breakdown_item list"

text \<open>
  The arguments of one call of \<open>auth.recordQuizAttempt\<close>. The function itself is
  defined elsewhere in the site's scripts; the page's part is to call it, and the calls
  are what the model keeps.
\<close>

record attempt_call =
  rec_passageId :: string
  rec_score :: nat
  rec_timeElapsed :: int
  rec_totalQuestions :: nat

text \<open>
  The page's globals once \<open>loadQuiz\<close> has found the passage (\<open>currentPassage\<close>,
  \<open>startTime\<close>, \<open>timerInterval\<close>, \<open>timeLimit\<close>, \<open>userAnswers\<close>), and what the page
  touches outside them: the browser's table of running intervals, the countdown text, the
  results modal with every result it was filled with, the toasts, the signed-in user and
  the calls of \<open>auth.recordQuizAttempt\<close>. Times are milliseconds as \<open>Date.now()\<close>
  returns them; each function that reads the clock takes the reading as an argument.
\<close>

record quiz_page =
  currentPassage :: passage
  startTime :: int
  timerInterval :: "nat option"
  timeLimit :: int
  userAnswers :: "nat \<rightharpoonup> nat"
  activeIntervals :: "nat set"
  nextIntervalId :: nat
  timeRemainingShown :: int
  resultsModalOpen :: bool
  shownResults :: "results list"
  toasts :: "string list"
  currentUser :: "string option"
  recordedAttempts :: "attempt_call list"

subsection \<open>Answers and the timer\<close>

definition js_index :: "'a list \<Rightarrow> nat \<Rightarrow> 'a option" where
  \<comment> \<open>\<open>xs[i]\<close>: \<open>undefined\<close> (here \<open>None\<close>) out of range\<close>
  "js_index xs i = (if i < length xs then Some (xs ! i) else None)"

definition selectAnswer :: "nat \<Rightarrow> nat \<Rightarrow> quiz_page \<Rightarrow> quiz_page" where
  "selectAnswer questionIndex answerIdx s =
     s\<lparr>userAnswers := (userAnswers s)(questionIndex \<mapsto> answerIdx)\<rparr>"

definition answeredQuestions :: "quiz_page \<Rightarrow> nat" where
  \<comment> \<open>\<open>Object.keys(userAnswers).length\<close>\<close>
  "answeredQuestions s = card (dom (userAnswers s))"

definition updateTimerDisplay :: "int \<Rightarrow> quiz_page \<Rightarrow> quiz_page" where
  "updateTimerDisplay remaining s = s\<lparr>timeRemainingShown := remaining\<rparr>"

definition setInterval :: "quiz_page \<Rightarrow> nat \<times> quiz_page" where
  \<comment> \<open>registers a callback under a fresh handle\<close>
  "setInterval s =
     (nextIntervalId s,
      s\<lparr>activeIntervals := insert (nextIntervalId s) (activeIntervals s),
        nextIntervalId := Suc (nextIntervalId s)\<rparr>)"

definition clearInterval :: "nat option \<Rightarrow> quiz_page \<Rightarrow> quiz_page" where
  "clearInterval h s =
     (case h of None \<Rightarrow> s | Some i \<Rightarrow> s\<lparr>activeIntervals := activeIntervals s - {i}\<rparr>)"

definition startTimer :: "quiz_page \<Rightarrow> quiz_page" where
  "startTimer s =
     (let s1 = updateTimerDisplay (timeLimit s) s;
          (h, s2) = setInterval s1
      in s2\<lparr>timerInterval := Some h\<rparr>)"

definition remainingSeconds :: "quiz_page \<Rightarrow> int \<Rightarrow> int" where
  \<comment> \<open>\<open>Math.max(0, timeLimit - Math.floor((Date.now() - startTime) / 1000))\<close>\<close>
  "remainingSeconds s now = max 0 (timeLimit s - (now - startTime s) div 1000)"

subsection \<open>Scoring and submission\<close>

fun score_questions :: "(nat \<rightharpoonup> nat) \<Rightarrow> nat \<Rightarrow> question list \<Rightarrow> nat \<times> breakdown_item list" where
  "score_questions answers i [] = (0, [])"
| "score_questions answers i (qu # qus) =
     (let given = answers i;
          right = (given = Some (answerIndex qu));
          item = \<lparr>item_question = question_q qu,
                  userAnswer = (case given of None \<Rightarrow> Some ''Not answered''
                                | Some a \<Rightarrow> js_index (options qu) a),
                  correctAnswer = js_index (options qu) (answerIndex qu),
                  isCorrect = right\<rparr>;
          (c, b) = score_questions answers (Suc i) qus
      in ((if right then Suc c else c), item # b))"

definition calculateScore :: "int \<Rightarrow> quiz_page \<Rightarrow> results" where
  \<comment> \<open>\<open>0 / 0\<close> is \<open>NaN\<close>, and so is its rounded product: \<open>None\<close>\<close>
  "calculateScore now s =
     (let n = length (questions (currentPassage s));
          (c, b) = score_questions (userAnswers s) 0 (questions (currentPassage s))
      in \<lparr>correct = c,
          total = n,
          percentage = (if n = 0 then None
                        else Some (Math_round (double_mul (double_div c n) 100))),
          timeElapsed = (now - startTime s) div 1000,
          breakdown = b\<rparr>)"

definition showResults :: "results \<Rightarrow> bool \<Rightarrow> quiz_page \<Rightarrow> quiz_page" where
  "showResults res autoSubmit s =
     (let s1 = s\<lparr>shownResults := shownResults s @ [res], resultsModalOpen := True\<rparr>;
          s2 = (if autoSubmit
                then s1\<lparr>toasts := toasts s1 @ [''Time expired! Quiz submitted automatically.'']\<rparr>
                else s1)
      in case currentUser s2 of
           None \<Rightarrow> s2
         | Some u \<Rightarrow>
             s2\<lparr>recordedAttempts := recordedAttempts s2 @
                   [\<lparr>rec_passageId = passage_id (currentPassage s2),
                     rec_score = correct res,
                     rec_timeElapsed = timeElapsed res,
                     rec_totalQuestions = total res\<rparr>]\<rparr>)"

definition submitQuiz :: "bool \<Rightarrow> bool \<Rightarrow> int \<Rightarrow> quiz_page \<Rightarrow> quiz_page" where
  \<comment> \<open>\<open>confirmSubmit\<close> is what the user answers should \<open>confirm\<close> be asked;
      \<open>now\<close> is the clock as \<open>calculateScore\<close> reads it\<close>
  "submitQuiz autoSubmit confirmSubmit now s =
     (let s1 = clearInterval (timerInterval s) s
      in if \<not> autoSubmit
            \<and> answeredQuestions s1 < length (questions (currentPassage s1))
            \<and> \<not> confirmSubmit
         then startTimer s1
         else showResults (calculateScore now s1) autoSubmit s1)"

definition tick :: "nat \<Rightarrow> int \<Rightarrow> int \<Rightarrow> quiz_page \<Rightarrow> quiz_page" where
  \<comment> \<open>one run of the callback \<open>startTimer\<close> registered under handle \<open>h\<close>; a cleared
      interval never runs. \<open>now\<close> is the callback's own clock reading, \<open>now'\<close> the later
      one of \<open>calculateScore\<close>\<close>
  "tick h now now' s =
     (if h \<notin> activeIntervals s then s
      else let remaining = remainingSeconds s now;
               s1 = updateTimerDisplay remaining s
           in if remaining = 0 then submitQuiz True False now' s1 else s1)"

definition retakeQuiz :: "int \<Rightarrow> quiz_page \<Rightarrow> quiz_page" where
  "retakeQuiz now s =
     startTimer (s\<lparr>resultsModalOpen := False, userAnswers := Map.empty, startTime := now\<rparr>)"

definition loadQuiz :: "passage list \<Rightarrow> string \<Rightarrow> int \<Rightarrow> string option \<Rightarrow> quiz_page option" where
  \<comment> \<open>\<open>None\<close>: no passage has the id, the page shows a toast and leaves\<close>
  "loadQuiz passages passageId now user =
     (case find (\<lambda>p. passage_id p = passageId) passages of
        None \<Rightarrow> None
      | Some p \<Rightarrow>
          Some (startTimer
            \<lparr>currentPassage = p,
             startTime = now,
             timerInterval = None,
             timeLimit = passage_timeLimit p * 60,
             userAnswers = Map.empty,
             activeIntervals = {},
             nextIntervalId = 0,
             timeRemainingShown = 0,
             resultsModalOpen = False,
             shownResults = [],
             toasts = [],
             currentUser = user,
             recordedAttempts = []\<rparr>))"

definition ticking :: "quiz_page \<Rightarrow> bool" where
  \<comment> \<open>the session is active: the interval \<open>timerInterval\<close> names runs, and no other\<close>
  "ticking s = (case timerInterval s of None \<Rightarrow> False | Some h \<Rightarrow> activeIntervals s = {h})"

subsection \<open>The score as the specification words it\<close>

definition spec_score :: "(nat \<rightharpoonup> nat) \<Rightarrow> question list \<Rightarrow> int" where
  \<comment> \<open>\<open>round(100 * |{i : A[i] = correctIndex[i]}| / N)\<close>\<close>
  "spec_score A qs =
     round (100 * rat_of_nat (card {i. i < length qs \<and> A i = Some (answerIndex (qs ! i))})
              / rat_of_nat (length qs))"

subsection \<open>Runs of the timer, and the sessions used as examples\<close>

fun run_ticks :: "(nat \<times> int \<times> int) list \<Rightarrow> quiz_page \<Rightarrow> quiz_page" where
  \<comment> \<open>the browser running interval callbacks one after the other\<close>
  "run_ticks [] s = s"
| "run_ticks ((h, now, now') # evs) s = run_ticks evs (tick h now now' s)"

definition forty_questions :: passage where
  "forty_questions =
     \<lparr>passage_id = ''p40'', passage_timeLimit = 30,
      questions = replicate 40
        \<lparr>question_q = ''Q'', options = [''a'', ''b'', ''c'', ''d''], answerIndex = 0\<rparr>\<rparr>"

definition first_23_right :: "nat \<rightharpoonup> nat" where
  \<comment> \<open>questions 0 to 22 answered with option 0, questions 23 to 39 with option 1\<close>
  "first_23_right = (\<lambda>i. if i < 23 then Some 0 else if i < 40 then Some 1 else None)"

definition demo_passage :: passage where
  "demo_passage =
     \<lparr>passage_id = ''p1'', passage_timeLimit = 1,
      questions =
        [\<lparr>question_q = ''Q1'', options = [''a'', ''b'', ''c'', ''d''], answerIndex = 1\<rparr>,
         \<lparr>question_q = ''Q2'', options = [''e'', ''f'', ''g'', ''h''], answerIndex = 0\<rparr>]\<rparr>"

definition demo_page :: quiz_page where
  \<comment> \<open>the page after \<open>loadQuiz\<close> at time 0, user \<open>u1\<close> signed in\<close>
  "demo_page =
     \<lparr>currentPassage = demo_passage,
      startTime = 0,
      timerInterval = Some 0,
      timeLimit = 60,
      userAnswers = Map.empty,
      activeIntervals = {0},
      nextIntervalId = 1,
      timeRemainingShown = 60,
      resultsModalOpen = False,
      shownResults = [],
      toasts = [],
      currentUser = Some ''u1'',
      recordedAttempts = []\<rparr>"

text \<open>
  The states of a session that is being taken: the page as \<open>loadQuiz\<close> leaves it, and
  what answering, a tick before the time is up, a declined submission, and a retake after
  a submission make of such a state.
\<close>

inductive active :: "quiz_page \<Rightarrow> bool" where
  loaded: "loadQuiz ps pid now u = Some s \<Longrightarrow> active s"
| answered: "active s \<Longrightarrow> active (selectAnswer qi ai s)"
| ticked: "active s \<Longrightarrow> 0 < remainingSeconds s now \<Longrightarrow> active (tick h now now' s)"
| declined: "active s \<Longrightarrow> answeredQuestions s < length (questions (currentPassage s)) \<Longrightarrow>
     active (submitQuiz False False now s)"
| retaken: "active s \<Longrightarrow> \<not> answeredQuestions s < length (questions (currentPassage s)) \<or> c \<Longrightarrow>
     active (retakeQuiz now' (submitQuiz False c now s))"
| retaken_auto: "active s \<Longrightarrow> timerInterval s = Some h \<Longrightarrow> remainingSeconds s now = 0 \<Longrightarrow>
     active (retakeQuiz later (tick h now now' s))"

definition demo_answered :: quiz_page where
  "demo_answered = selectAnswer 1 0 (selectAnswer 0 1 demo_page)"

text \<open>
  The page after the time ran out at 60 seconds, a further submission (Ctrl+Enter while
  the results are shown) was declined at 61 seconds, and the quiz was retaken at 62 seconds.
\<close>

definition leaked_page :: quiz_page where
  "leaked_page = retakeQuiz 62000 (submitQuiz False False 61000 (tick 0 60000 60000 demo_page))"

section \<open>Pasted questions\<close>

text \<open>
  \<open>parseQuestionText\<close> of the passage editor. A JavaScript string is a sequence of UTF-16
  code units, here natural numbers; \<open>units\<close> gives the code units of an ASCII literal.
  \<open>trim\<close> strips the white space and the line terminators of ECMAScript at both ends:
  tab, line feed, vertical tab, form feed, carriage return, space, U+00A0, U+1680,
  U+2000 to U+200A, U+2028, U+2029, U+202F, U+205F, U+3000 and U+FEFF.
  \<open>toLowerCase\<close> maps the ASCII capitals, U+0130 (to \<open>i\<close> and U+0307) and U+212A (to
  \<open>k\<close>); every other character has a lower-case form outside ASCII and is kept as it
  is, the result being used only in the test for the prefix \<open>question:\<close>.
\<close>

type_synonym js_string = "nat list"

definition units :: "string \<Rightarrow> js_string" where
  "units s = map of_char s"

record parsed_question =
  pq_text :: js_string
  pq_options :: "js_string list"
  correctIndex :: int

definition is_space :: "nat \<Rightarrow> bool" where
  \<comment> \<open>\<open>WhiteSpace\<close> and \<open>LineTerminator\<close> of ECMAScript\<close>
  "is_space c =
     (c \<in> {0x09, 0x0A, 0x0B, 0x0C, 0x0D, 0x20, 0xA0, 0x1680, 0x2028, 0x2029, 0x202F, 0x205F,
            0x3000, 0xFEFF}
      \<or> (0x2000 \<le> c \<and> c \<le> 0x200A))"

definition trim :: "js_string \<Rightarrow> js_string" where
  "trim s = rev (dropWhile is_space (rev (dropWhile is_space s)))"

fun split_newline :: "js_string \<Rightarrow> js_string list" where
  "split_newline [] = [[]]"
| "split_newline (c # cs) =
     (if c = 0x0A then [] # split_newline cs
      else (case split_newline cs of [] \<Rightarrow> [[c]] | l # ls \<Rightarrow> (c # l) # ls))"

definition toLowerCase :: "js_string \<Rightarrow> js_string" where
  "toLowerCase s =
     concat (map (\<lambda>c. if 0x41 \<le> c \<and> c \<le> 0x5A then [c + 0x20]
                       else if c = 0x130 then [0x69, 0x307]
                       else if c = 0x212A then [0x6B]
                       else [c]) s)"

definition startsWith :: "js_string \<Rightarrow> js_string \<Rightarrow> bool" where
  "startsWith s p = (take (length p) s = p)"

definition is_question_line :: "js_string \<Rightarrow> bool" where
  "is_question_line line = startsWith (toLowerCase line) (units ''question:'')"

definition is_option_line :: "js_string \<Rightarrow> bool" where
  "is_option_line line =
     (case line of
        a # b # _ \<Rightarrow> a \<in> {0x41, 0x42, 0x43, 0x44} \<and> b = 0x29
      | _ \<Rightarrow> False)"

text \<open>The object a \<open>question:\<close> line opens, and the body of the branch for an option line.\<close>

definition new_question :: "js_string \<Rightarrow> parsed_question" where
  "new_question line = \<lparr>pq_text = trim (drop 9 line), pq_options = [], correctIndex = - 1\<rparr>"

definition option_text :: "js_string \<Rightarrow> js_string" where
  "option_text line = trim (remove1 0x2A (drop 2 line))"

definition push_option :: "parsed_question \<Rightarrow> js_string \<Rightarrow> parsed_question" where
  "push_option c line =
     (let isCorrect = (0x2A \<in> set line);
          optionText = option_text line;
          c1 = c\<lparr>pq_options := pq_options c @ [optionText]\<rparr>
      in if isCorrect then c1\<lparr>correctIndex := int (length (pq_options c1)) - 1\<rparr> else c1)"

fun parse_lines ::
  "js_string list \<Rightarrow> parsed_question list \<Rightarrow> parsed_question option
     \<Rightarrow> parsed_question list \<times> parsed_question option" where
  "parse_lines [] qs cur = (qs, cur)"
| "parse_lines (line # rest) qs cur =
     (if is_question_line line
      then parse_lines rest (case cur of None \<Rightarrow> qs | Some c \<Rightarrow> qs @ [c])
             (Some (new_question line))
      else case cur of
             None \<Rightarrow> parse_lines rest qs cur
           | Some c \<Rightarrow>
               if is_option_line line then parse_lines rest qs (Some (push_option c line))
               else parse_lines rest qs cur)"

text \<open>The lines of the text, split at the line feeds and trimmed, the empty ones left out.\<close>

definition pasted_lines :: "js_string \<Rightarrow> js_string list" where
  "pasted_lines txt = filter (\<lambda>line. line \<noteq> []) (map trim (split_newline txt))"

definition parseQuestionText :: "js_string \<Rightarrow> parsed_question list" where
  "parseQuestionText txt =
     (let (qs, cur) = parse_lines (pasted_lines txt) [] None;
          parsed = (case cur of None \<Rightarrow> qs | Some c \<Rightarrow> qs @ [c])
      in filter (\<lambda>q. pq_text q \<noteq> [] \<and> length (pq_options q) = 4 \<and> 0 \<le> correctIndex q)
           parsed)"

subsection \<open>The grammar, block by block\<close>

text \<open>
  The result described without the loop: every \<open>question:\<close> line opens a
  block that runs to the next such line; the options of a block are its option lines, in
  order; an option is marked when its line holds a \<open>*\<close>. A block is accepted when its
  prompt is not empty, it has exactly four options and at least one of them is marked;
  its question then carries the index of the last marked option.
\<close>

fun blocks :: "js_string list \<Rightarrow> (js_string \<times> js_string list) list" where
  "blocks [] = []"
| "blocks (l # ls) =
     (if is_question_line l
      then (l, takeWhile (\<lambda>x. \<not> is_question_line x) ls) # blocks ls
      else blocks ls)"

definition block_options :: "js_string \<times> js_string list \<Rightarrow> js_string list" where
  "block_options b = filter is_option_line (snd b)"

definition marked_options :: "js_string \<times> js_string list \<Rightarrow> nat list" where
  "marked_options b =
     filter (\<lambda>i. 0x2A \<in> set (block_options b ! i)) [0..<length (block_options b)]"

definition accepted_block :: "js_string \<times> js_string list \<Rightarrow> bool" where
  "accepted_block b =
     (trim (drop 9 (fst b)) \<noteq> [] \<and> length (block_options b) = 4 \<and> marked_options b \<noteq> [])"

definition question_of_block :: "js_string \<times> js_string list \<Rightarrow> parsed_question" where
  "question_of_block b =
     \<lparr>pq_text = trim (drop 9 (fst b)),
      pq_options = map option_text (block_options b),
      correctIndex = (case marked_options b of [] \<Rightarrow> - 1 | _ \<Rightarrow> int (last (marked_options b)))\<rparr>"

text \<open>The loop on the lines of one block, and the list the loop leaves at its end.\<close>

definition absorb :: "parsed_question \<Rightarrow> js_string list \<Rightarrow> parsed_question" where
  "absorb c body = foldl (\<lambda>c line. if is_option_line line then push_option c line else c) c body"

definition finish :: "parsed_question list \<times> parsed_question option \<Rightarrow> parsed_question list" where
  "finish r = (case snd r of None \<Rightarrow> fst r | Some c \<Rightarrow> fst r @ [c])"

subsection \<open>Example inputs\<close>

text \<open>The lines of a pasted block, each ended by a line feed.\<close>

definition text_of_lines :: "string list \<Rightarrow> js_string" where
  "text_of_lines ls = concat (map (\<lambda>l. units l @ [0x0A]) ls)"

definition two_question_block :: js_string where
  "two_question_block = text_of_lines
     [''Question: What is 2+2?'', ''A) 3'', ''B) 4 *'', ''C) 5'', ''D) 6'', '''',
      ''question: Capital of France?'', ''A) *Paris'', ''B) Rome'', ''C) Berlin'', ''D) Madrid'']"

definition three_option_block :: js_string where
  "three_option_block = text_of_lines
     [''Question: What is 2+2?'', ''A) 3'', ''B) 4 *'', ''C) 5'',
      ''Question: Capital of France?'', ''A) *Paris'', ''B) Rome'', ''C) Berlin'', ''D) Madrid'']"

definition two_marks_block :: js_string where
  "two_marks_block = text_of_lines
     [''Question: Pick one'', ''A) *yes'', ''B) *no'', ''C) maybe'', ''D) never'']"

definition one_empty_option_block :: js_string where
  "one_empty_option_block = text_of_lines
     [''Question: Pick one'', ''A) *'', ''B) no'', ''C) maybe'', ''D) never'']"

definition unmarked_block :: js_string where
  "unmarked_block = text_of_lines
     [''Question: Pick one'', ''A) yes'', ''B) no'', ''C) maybe'', ''D) never'']"

text \<open>A block whose lines carry white space outside ASCII at their ends.\<close>

definition spaced_block :: js_string where
  "spaced_block =
     [0xFEFF] @ units ''Question:'' @ [0xA0] @ units ''Pick one'' @ [0x3000, 0x0A]
     @ [0x2003] @ units ''A)'' @ [0xA0] @ units ''*yes'' @ [0x2028, 0x0D, 0x0A]
     @ units ''B) no'' @ [0x0A] @ units ''C) maybe'' @ [0x0A] @ units ''D) never''"

section \<open>The passage and attempt repositories\<close>

text \<open>
  Documents of the store are maps from field names to values. The store itself is an
  external service; it is modelled by what the repositories rely on: collections of
  documents under their ids (listed in the order a query without an ordering returns
  them), queries with equality filters, one ordering and a limit, and calls that fail when
  the store cannot be reached. The ids the store assigns and the
  timestamps it resolves are inputs of the operations that need them.
\<close>

datatype fs_value =
  VNull | VBool bool | VNum int | VTime int | VStr string | VArray "fs_value list"

type_synonym doc = "string \<rightharpoonup> fs_value"

datatype error = AdminRequired | AuthRequired | TypeError | InvalidArgument | StoreUnavailable | NotFound

datatype ui_event = ShowLoader string | HideLoader | Toast string string | ConsoleError string

datatype constraint = Where string fs_value | OrderBy string string | Limit int

record auth_manager =
  currentUser_uid :: "string option"
  userRole :: "string option"

record world =
  passages_col :: "(string \<times> doc) list"
  attempts_col :: "(string \<times> doc) list"
  reachable :: bool
  store_calls :: "string list"
  ui :: "ui_event list"

definition isAdmin :: "auth_manager \<Rightarrow> bool" where
  "isAdmin am = (userRole am = Some ''admin'')"

definition isAuthenticated :: "auth_manager \<Rightarrow> bool" where
  "isAuthenticated am = (currentUser_uid am \<noteq> None)"

definition truthy :: "fs_value \<Rightarrow> bool" where
  "truthy v = (case v of VNull \<Rightarrow> False | VBool b \<Rightarrow> b | VNum n \<Rightarrow> n \<noteq> 0
               | VStr s \<Rightarrow> s \<noteq> [] | _ \<Rightarrow> True)"

subsection \<open>Queries\<close>

fun str_le :: "string \<Rightarrow> string \<Rightarrow> bool" where
  "str_le [] ys = True"
| "str_le (x # xs) [] = False"
| "str_le (x # xs) (y # ys) =
     ((of_char x :: nat) < of_char y \<or> (x = y \<and> str_le xs ys))"

fun type_rank :: "fs_value \<Rightarrow> nat" where
  "type_rank VNull = 0"
| "type_rank (VBool b) = 1"
| "type_rank (VNum n) = 2"
| "type_rank (VTime t) = 3"
| "type_rank (VStr s) = 4"
| "type_rank (VArray vs) = 5"

fun fs_le :: "fs_value \<Rightarrow> fs_value \<Rightarrow> bool" where
  "fs_le (VBool a) (VBool b) = (a \<le> b)"
| "fs_le (VNum a) (VNum b) = (a \<le> b)"
| "fs_le (VTime a) (VTime b) = (a \<le> b)"
| "fs_le (VStr a) (VStr b) = str_le a b"
| "fs_le x y = (type_rank x \<le> type_rank y)"

definition doc_le :: "string \<Rightarrow> string \<times> doc \<Rightarrow> string \<times> doc \<Rightarrow> bool" where
  \<comment> \<open>by the field, documents with equal values by their ids\<close>
  "doc_le field a b =
     (case (snd a field, snd b field) of
        (Some x, Some y) \<Rightarrow> if fs_le x y \<and> fs_le y x then str_le (fst a) (fst b) else fs_le x y
      | _ \<Rightarrow> True)"

fun insort_by :: "('a \<Rightarrow> 'a \<Rightarrow> bool) \<Rightarrow> 'a \<Rightarrow> 'a list \<Rightarrow> 'a list" where
  "insort_by le x [] = [x]"
| "insort_by le x (y # ys) = (if le x y then x # y # ys else y # insort_by le x ys)"

definition sort_by :: "('a \<Rightarrow> 'a \<Rightarrow> bool) \<Rightarrow> 'a list \<Rightarrow> 'a list" where
  "sort_by le xs = foldr (insort_by le) xs []"

fun matches :: "constraint list \<Rightarrow> doc \<Rightarrow> bool" where
  "matches [] d = True"
| "matches (Where f v # cs) d = (d f = Some v \<and> matches cs d)"
| "matches (OrderBy f dir # cs) d = (d f \<noteq> None \<and> matches cs d)"
| "matches (Limit n # cs) d = matches cs d"

fun ordering :: "constraint list \<Rightarrow> (string \<times> string) option" where
  "ordering [] = None"
| "ordering (OrderBy f dir # cs) = Some (f, dir)"
| "ordering (c # cs) = ordering cs"

fun limit_of :: "constraint list \<Rightarrow> int option" where
  "limit_of [] = None"
| "limit_of (Limit n # cs) = Some n"
| "limit_of (c # cs) = limit_of cs"

definition getDocs :: "(string \<times> doc) list \<Rightarrow> constraint list \<Rightarrow> error + (string \<times> doc) list" where
  \<comment> \<open>the documents a query returns: those that match every filter and carry the
      ordering field, in the order asked for, cut at the limit; a direction other than
      \<open>asc\<close> or \<open>desc\<close> and a limit that is not positive are refused\<close>
  "getDocs col cs =
     (let found = filter (\<lambda>(i, d). matches cs d) col
      in case (case ordering cs of
                 None \<Rightarrow> Inr found
               | Some (f, dir) \<Rightarrow>
                   if dir = ''asc'' then Inr (sort_by (doc_le f) found)
                   else if dir = ''desc'' then Inr (rev (sort_by (doc_le f) found))
                   else Inl InvalidArgument) of
           Inl e \<Rightarrow> Inl e
         | Inr ordered \<Rightarrow>
             (case limit_of cs of
                None \<Rightarrow> Inr ordered
              | Some n \<Rightarrow> if n \<le> 0 then Inl InvalidArgument else Inr (take (nat n) ordered)))"

definition with_id :: "string \<times> doc \<Rightarrow> doc" where
  \<comment> \<open>\<open>{id: doc.id, ...doc.data()}\<close>\<close>
  "with_id p = [''id'' \<mapsto> VStr (fst p)] ++ snd p"

subsection \<open>Passages\<close>

text \<open>The options objects; an option the caller leaves out is \<open>None\<close>.\<close>

record query_options =
  subject :: "string option"
  limitCount :: "int option"

record passage_options = query_options +
  difficulty :: "string option"
  publishedOnly :: "bool option"
  orderByField :: "string option"
  orderDirection :: "string option"

definition createPassage ::
  "auth_manager \<Rightarrow> doc \<Rightarrow> string \<Rightarrow> int \<Rightarrow> world \<Rightarrow> (error + string) \<times> world" where
  \<comment> \<open>\<open>newId\<close> is the id the store gives the document, \<open>now\<close> the server's timestamp\<close>
  "createPassage am passageData newId now w =
     (if \<not> isAdmin am then (Inl AdminRequired, w)
      else
        let w1 = w\<lparr>ui := ui w @ [ShowLoader ''Creating passage...'']\<rparr>;
            failed = (\<lambda>e w'. (Inl e, w'\<lparr>ui := ui w' @ [HideLoader, ConsoleError ''Error creating passage:'',
                                                      Toast ''Failed to create passage'' ''error'']\<rparr>))
        in case currentUser_uid am of
             None \<Rightarrow> failed TypeError w1
           | Some uid \<Rightarrow>
               let passage = passageData ++
                     [''createdBy'' \<mapsto> VStr uid,
                      ''createdAt'' \<mapsto> VTime now,
                      ''updatedAt'' \<mapsto> VTime now,
                      ''isPublished'' \<mapsto>
                         (case passageData ''isPublished'' of
                            None \<Rightarrow> VBool False
                          | Some v \<Rightarrow> if truthy v then v else VBool False)];
                   w2 = w1\<lparr>store_calls := store_calls w1 @ [''addDoc passages'']\<rparr>
               in if \<not> reachable w2 then failed StoreUnavailable w2
                  else (Inr newId,
                        w2\<lparr>passages_col := passages_col w2 @ [(newId, passage)],
                           ui := ui w2 @ [HideLoader, Toast ''Passage created successfully'' ''success'']\<rparr>))"

definition updatePassage ::
  "auth_manager \<Rightarrow> string \<Rightarrow> doc \<Rightarrow> int \<Rightarrow> world \<Rightarrow> (error + unit) \<times> world" where
  \<comment> \<open>\<open>updateDoc\<close> fails on a document that does not exist\<close>
  "updatePassage am passageId updates now w =
     (if \<not> isAdmin am then (Inl AdminRequired, w)
      else
        let w1 = w\<lparr>ui := ui w @ [ShowLoader ''Updating passage...'']\<rparr>;
            updateData = updates ++ [''updatedAt'' \<mapsto> VTime now];
            w2 = w1\<lparr>store_calls := store_calls w1 @ [''updateDoc passages'']\<rparr>;
            failed = (\<lambda>e. (Inl e, w2\<lparr>ui := ui w2 @ [HideLoader, ConsoleError ''Error updating passage:'',
                                                   Toast ''Failed to update passage'' ''error'']\<rparr>))
        in if \<not> reachable w2 then failed StoreUnavailable
           else if passageId \<notin> fst ` set (passages_col w2) then failed NotFound
           else (Inr (),
                 w2\<lparr>passages_col :=
                       map (\<lambda>(i, d). if i = passageId then (i, d ++ updateData) else (i, d))
                         (passages_col w2),
                    ui := ui w2 @ [HideLoader, Toast ''Passage updated successfully'' ''success'']\<rparr>))"

definition deletePassage ::
  "auth_manager \<Rightarrow> string \<Rightarrow> world \<Rightarrow> (error + unit) \<times> world" where
  "deletePassage am passageId w =
     (if \<not> isAdmin am then (Inl AdminRequired, w)
      else
        let w1 = w\<lparr>ui := ui w @ [ShowLoader ''Deleting passage...'']\<rparr>;
            w2 = w1\<lparr>store_calls := store_calls w1 @ [''deleteDoc passages'']\<rparr>
        in if \<not> reachable w2
           then (Inl StoreUnavailable,
                 w2\<lparr>ui := ui w2 @ [HideLoader, ConsoleError ''Error deleting passage:'',
                                     Toast ''Failed to delete passage'' ''error'']\<rparr>)
           else (Inr (),
                 w2\<lparr>passages_col := filter (\<lambda>(i, d). i \<noteq> passageId) (passages_col w2),
                    ui := ui w2 @ [HideLoader, Toast ''Passage deleted successfully'' ''success'']\<rparr>))"

definition passage_constraints :: "auth_manager \<Rightarrow> passage_options \<Rightarrow> constraint list" where
  \<comment> \<open>the constraints \<open>getPassages\<close> pushes, in its order; \<open>if (x)\<close> is false for an empty
      string, for \<open>false\<close> and for 0\<close>
  "passage_constraints am opts =
     (case subject opts of None \<Rightarrow> [] | Some s \<Rightarrow> if s \<noteq> [] then [Where ''subject'' (VStr s)] else [])
     @ (case difficulty opts of None \<Rightarrow> [] | Some d \<Rightarrow> if d \<noteq> [] then [Where ''difficulty'' (VStr d)] else [])
     @ (if (case publishedOnly opts of None \<Rightarrow> \<not> isAdmin am | Some b \<Rightarrow> b)
        then [Where ''isPublished'' (VBool True)] else [])
     @ [OrderBy (case orderByField opts of None \<Rightarrow> ''createdAt'' | Some f \<Rightarrow> f)
                (case orderDirection opts of None \<Rightarrow> ''desc'' | Some d \<Rightarrow> d)]
     @ (case limitCount opts of None \<Rightarrow> [] | Some n \<Rightarrow> if n \<noteq> 0 then [Limit n] else [])"

definition getPassages :: "auth_manager \<Rightarrow> passage_options \<Rightarrow> world \<Rightarrow> (error + doc list) \<times> world" where
  \<comment> \<open>a constraint the store refuses is refused when the query is built, before the
      store is called\<close>
  "getPassages am opts w =
     (let failed = (\<lambda>e w'. (Inl e, w'\<lparr>ui := ui w' @ [ConsoleError ''Error getting passages:'',
                                                    Toast ''Failed to load passages'' ''error'']\<rparr>))
      in case getDocs (passages_col w) (passage_constraints am opts) of
           Inl e \<Rightarrow> failed e w
         | Inr found \<Rightarrow>
             let w1 = w\<lparr>store_calls := store_calls w @ [''getDocs passages'']\<rparr>
             in if \<not> reachable w1 then failed StoreUnavailable w1
                else (Inr (map with_id found), w1))"

text \<open>
  The listing as the specification words it: \<open>publishedOnly\<close> is what the caller gives
  and, when the caller gives nothing, true for a caller who is not an admin and false for
  an admin; the passages listed are those with the subject and the difficulty asked for,
  published when \<open>publishedOnly\<close> is true, that carry the field they are ordered by.
\<close>

definition spec_publishedOnly :: "auth_manager \<Rightarrow> passage_options \<Rightarrow> bool" where
  "spec_publishedOnly am opts =
     (case publishedOnly opts of
        Some b \<Rightarrow> b
      | None \<Rightarrow> if isAdmin am then False else True)"

definition spec_listed :: "auth_manager \<Rightarrow> passage_options \<Rightarrow> doc \<Rightarrow> bool" where
  "spec_listed am opts d =
     ((case subject opts of None \<Rightarrow> True | Some s \<Rightarrow> s = [] \<or> d ''subject'' = Some (VStr s))
      \<and> (case difficulty opts of None \<Rightarrow> True | Some x \<Rightarrow> x = [] \<or> d ''difficulty'' = Some (VStr x))
      \<and> (if spec_publishedOnly am opts then d ''isPublished'' = Some (VBool True) else True)
      \<and> d (case orderByField opts of None \<Rightarrow> ''createdAt'' | Some f \<Rightarrow> f) \<noteq> None)"

subsection \<open>Attempts\<close>

record attempt_options = query_options +
  startDate :: "int option"
  endDate :: "int option"

record attempt =
  att_fields :: doc
  attemptedAt :: int

definition to_attempt :: "int \<Rightarrow> string \<times> doc \<Rightarrow> error + attempt" where
  \<comment> \<open>\<open>{id: doc.id, ...data, attemptedAt: data.attemptedAt?.toDate() || new Date()}\<close>:
      a stored value that is not a timestamp has no \<open>toDate\<close>\<close>
  "to_attempt now p =
     (case snd p ''attemptedAt'' of
        None \<Rightarrow> Inr \<lparr>att_fields = with_id p, attemptedAt = now\<rparr>
      | Some VNull \<Rightarrow> Inr \<lparr>att_fields = (with_id p)(''attemptedAt'' := None), attemptedAt = now\<rparr>
      | Some (VTime t) \<Rightarrow> Inr \<lparr>att_fields = (with_id p)(''attemptedAt'' := None), attemptedAt = t\<rparr>
      | Some _ \<Rightarrow> Inl TypeError)"

fun to_attempts :: "int \<Rightarrow> (string \<times> doc) list \<Rightarrow> error + attempt list" where
  "to_attempts now [] = Inr []"
| "to_attempts now (p # ps) =
     (case to_attempt now p of
        Inl e \<Rightarrow> Inl e
      | Inr a \<Rightarrow> (case to_attempts now ps of Inl e \<Rightarrow> Inl e | Inr as \<Rightarrow> Inr (a # as)))"

definition slice0 :: "int \<Rightarrow> 'a list \<Rightarrow> 'a list" where
  \<comment> \<open>\<open>xs.slice(0, n)\<close>: a negative \<open>n\<close> counts from the end\<close>
  "slice0 n xs = (if n < 0 then take (nat (int (length xs) + n)) xs else take (nat n) xs)"

definition getAttemptsForUser ::
  "auth_manager \<Rightarrow> attempt_options \<Rightarrow> int \<Rightarrow> world \<Rightarrow> (error + attempt list) \<times> world" where
  "getAttemptsForUser am opts now w =
     (if \<not> isAuthenticated am then (Inl AuthRequired, w)
      else
        let limit = (case limitCount opts of None \<Rightarrow> 50 | Some n \<Rightarrow> n);
            w1 = w\<lparr>store_calls := store_calls w @ [''getDocs attempts'']\<rparr>;
            failed = (\<lambda>e. (Inl e, w1\<lparr>ui := ui w1 @ [ConsoleError ''Error getting attempts:'',
                                                   Toast ''Failed to load quiz history'' ''error'']\<rparr>))
        in case currentUser_uid am of
             None \<Rightarrow> failed TypeError
           | Some uid \<Rightarrow>
               if \<not> reachable w1 then failed StoreUnavailable
               else case getDocs (attempts_col w1) [Where ''userId'' (VStr uid)] of
                      Inl e \<Rightarrow> failed e
                    | Inr found \<Rightarrow>
                        (case to_attempts now found of
                           Inl e \<Rightarrow> failed e
                         | Inr attempts \<Rightarrow>
                             let by_subject =
                                   (case subject opts of
                                      None \<Rightarrow> attempts
                                    | Some s \<Rightarrow>
                                        if s \<noteq> []
                                        then filter (\<lambda>a. att_fields a ''subject'' = Some (VStr s))
                                               attempts
                                        else attempts);
                                 by_date =
                                   (if startDate opts \<noteq> None \<or> endDate opts \<noteq> None
                                    then filter (\<lambda>a.
                                           (case startDate opts of None \<Rightarrow> True
                                            | Some d \<Rightarrow> \<not> attemptedAt a < d)
                                           \<and> (case endDate opts of None \<Rightarrow> True
                                            | Some d \<Rightarrow> \<not> attemptedAt a > d)) by_subject
                                    else by_subject);
                                 sorted_attempts = sort_key (\<lambda>a. - attemptedAt a) by_date
                             in (Inr (slice0 limit sorted_attempts), w1)))"

text \<open>A store and two users for the examples.\<close>

definition student :: auth_manager where
  "student = \<lparr>currentUser_uid = Some ''u1'', userRole = Some ''student''\<rparr>"

definition admin :: auth_manager where
  "admin = \<lparr>currentUser_uid = Some ''u0'', userRole = Some ''admin''\<rparr>"

definition demo_world :: world where
  "demo_world =
     \<lparr>passages_col =
        [(''pa'', [''title'' \<mapsto> VStr ''Cells'', ''subject'' \<mapsto> VStr ''Biology'',
                  ''isPublished'' \<mapsto> VBool True, ''createdAt'' \<mapsto> VTime 100]),
         (''pb'', [''title'' \<mapsto> VStr ''Draft'', ''subject'' \<mapsto> VStr ''Biology'',
                  ''isPublished'' \<mapsto> VBool False, ''createdAt'' \<mapsto> VTime 200])],
      attempts_col =
        [(''a1'', [''userId'' \<mapsto> VStr ''u1'', ''subject'' \<mapsto> VStr ''Biology'',
                  ''score'' \<mapsto> VNum 50, ''attemptedAt'' \<mapsto> VTime 1000]),
         (''a2'', [''userId'' \<mapsto> VStr ''u2'', ''subject'' \<mapsto> VStr ''Biology'',
                  ''score'' \<mapsto> VNum 90, ''attemptedAt'' \<mapsto> VTime 2000]),
         (''a3'', [''userId'' \<mapsto> VStr ''u1'', ''subject'' \<mapsto> VStr ''Physics'',
                  ''score'' \<mapsto> VNum 70, ''attemptedAt'' \<mapsto> VTime 3000])],
      reachable = True,
      store_calls = [],
      ui = []\<rparr>"

definition no_options :: attempt_options where
  "no_options = \<lparr>subject = None, limitCount = None, startDate = None, endDate = None\<rparr>"

definition default_options :: passage_options where
  "default_options =
     \<lparr>subject = None, limitCount = None, difficulty = None, publishedOnly = None,
      orderByField = None, orderDirection = None\<rparr>"


section \<open>Properties of scoring\<close>

lemma score_questions_count:
  "fst (score_questions A i qs) =
     card {j. j < length qs \<and> A (i + j) = Some (answerIndex (qs ! j))}"
proof (induction qs arbitrary: i)
  case Nil
  then show ?case by simp
next
  case (Cons qu qus)
  let ?S = "{j. j < length qus \<and> A (Suc i + j) = Some (answerIndex (qus ! j))}"
  let ?T = "{j. j < length (qu # qus) \<and> A (i + j) = Some (answerIndex ((qu # qus) ! j))}"
  have fin: "finite ?S" by simp
  have split: "?T = (if A i = Some (answerIndex qu) then {0} else {}) \<union> Suc ` ?S"
  proof (rule set_eqI)
    fix j
    show "j \<in> ?T \<longleftrightarrow> j \<in> (if A i = Some (answerIndex qu) then {0} else {}) \<union> Suc ` ?S"
      by (cases j) (auto simp: image_iff)
  qed
  have card_img: "card (Suc ` ?S) = card ?S"
    by (rule card_image) simp
  have "card ?T = (if A i = Some (answerIndex qu) then 1 else 0) + card ?S"
    unfolding split using fin card_img
    by (auto simp: card_insert_if)
  moreover have "fst (score_questions A (Suc i) qus) = card ?S"
    using Cons.IH [of "Suc i"] by simp
  ultimately show ?case
    by (auto simp: Let_def split: prod.splits)
qed

lemma calculateScore_correct:
  "correct (calculateScore now s) =
     card {i. i < length (questions (currentPassage s))
            \<and> userAnswers s i = Some (answerIndex (questions (currentPassage s) ! i))}"
  using score_questions_count [of "userAnswers s" 0 "questions (currentPassage s)"]
  by (simp add: calculateScore_def Let_def split_beta)

lemma forty_questions_length: "length (questions forty_questions) = 40"
  by (simp add: forty_questions_def)

lemma first_23_right_count:
  "{i. i < length (questions forty_questions)
     \<and> first_23_right i = Some (answerIndex (questions forty_questions ! i))} = {..<23}"
proof (rule set_eqI)
  fix i
  show "i \<in> {i. i < length (questions forty_questions)
               \<and> first_23_right i = Some (answerIndex (questions forty_questions ! i))}
        \<longleftrightarrow> i \<in> {..<23}"
    by (cases "i < 40") (simp_all add: forty_questions_def first_23_right_def)
qed

lemma binary64_23_of_40: "double_div 23 40 = Double 5179139571476070 (- 53)"
  by (simp add: double_div_def round_binary64_def binary_exponent_def nearest_even_def bits.simps
      Let_def)

lemma binary64_23_of_40_times_100:
  "double_mul (Double 5179139571476070 (- 53)) 100 = Double 8092405580431359 (- 47)"
  by (simp add: double_mul_def round_binary64_def binary_exponent_def nearest_even_def bits.simps
      Let_def)

lemma Math_round_23_of_40: "Math_round (Double 8092405580431359 (- 47)) = 57"
  by (simp add: Math_round_def)

subsection \<open>The range of the percentage\<close>

lemma nearest_even_le:
  assumes "0 < den" and "num \<le> B * den"
  shows "nearest_even num den \<le> B"
proof (cases "num div den < B")
  case True
  then show ?thesis by (simp add: nearest_even_def Let_def)
next
  case False
  have "num div den \<le> (B * den) div den"
    using assms(2) by (rule div_le_mono)
  then have "num div den \<le> B" using assms(1) by simp
  with False have eq: "num div den = B" by simp
  have "num div den * den \<le> num" by (rule div_times_less_eq_dividend)
  with eq assms(2) have "num = B * den" by simp
  then have "num mod den = 0" by simp
  then show ?thesis using eq assms(1) by (simp add: nearest_even_def Let_def)
qed

lemma bits_less: "n < 2 ^ j \<Longrightarrow> bits n \<le> j"
proof (induction n arbitrary: j rule: bits.induct)
  case (1 n)
  show ?case
  proof (cases "n = 0")
    case True
    then show ?thesis by (simp add: bits.simps)
  next
    case False
    then obtain i where j: "j = Suc i"
      using "1.prems" by (cases j) auto
    have "n div 2 < 2 ^ i" using "1.prems" j by auto
    then have "bits (n div 2) \<le> i" using "1.IH" False by simp
    then show ?thesis using False j by (subst bits.simps) simp
  qed
qed

lemma bits_upper: "n < 2 ^ bits n"
proof (induction n rule: bits.induct)
  case (1 n)
  show ?case
  proof (cases "n = 0")
    case True
    then show ?thesis by (simp add: bits.simps)
  next
    case False
    then have ih: "n div 2 < 2 ^ bits (n div 2)" using "1.IH" by simp
    have b: "bits n = Suc (bits (n div 2))" using False by (subst bits.simps) simp
    have "n < 2 * (n div 2 + 1)" by simp
    also have "\<dots> \<le> 2 * 2 ^ bits (n div 2)" using ih by simp
    finally show ?thesis by (simp add: b)
  qed
qed

lemma bits_ge: "0 < n \<Longrightarrow> 2 ^ (bits n - 1) \<le> n"
proof (induction n rule: bits.induct)
  case (1 n)
  show ?case
  proof (cases "n div 2 = 0")
    case True
    then have "bits (n div 2) = 0" by (simp add: bits.simps)
    then have "bits n = 1" using "1.prems" by (subst bits.simps) simp
    then show ?thesis using "1.prems" by simp
  next
    case False
    then have ih: "2 ^ (bits (n div 2) - 1) \<le> n div 2"
      using "1.IH" "1.prems" by simp
    have b: "bits n = Suc (bits (n div 2))" using "1.prems" by (subst bits.simps) simp
    have pos: "0 < bits (n div 2)" using False by (subst bits.simps) simp
    then have "(2::nat) ^ (bits n - 1) = 2 * 2 ^ (bits (n div 2) - 1)"
      using b by (cases "bits (n div 2)") simp_all
    also have "\<dots> \<le> 2 * (n div 2)" using ih by simp
    also have "\<dots> \<le> n" by simp
    finally show ?thesis .
  qed
qed

lemma bits_mono: "m \<le> n \<Longrightarrow> bits m \<le> bits n"
proof (rule ccontr)
  assume mn: "m \<le> n" and "\<not> bits m \<le> bits n"
  then have lt: "bits n \<le> bits m - 1" and pos: "0 < bits m" by simp_all
  have m0: "0 < m" using pos by (cases "m = 0") (simp_all add: bits.simps)
  have "n < 2 ^ bits n" by (rule bits_upper)
  also have "(2::nat) ^ bits n \<le> 2 ^ (bits m - 1)" using lt by (intro power_increasing) simp_all
  also have "\<dots> \<le> m" using m0 by (rule bits_ge)
  finally show False using mn by simp
qed

lemma binary_exponent_le: "p \<le> q \<Longrightarrow> binary_exponent p q \<le> 0"
  using bits_mono [of p q] by (simp add: binary_exponent_def Let_def)

lemma binary_exponent_int: "0 < p \<Longrightarrow> binary_exponent p 1 \<le> int (bits p) - 1"
  by (simp add: binary_exponent_def Let_def bits.simps)

lemma round_binary64_le_one:
  assumes "0 < p" and "p \<le> q" and "round_binary64 p q = Double m e"
  shows "e \<le> 0 \<and> m \<le> 2 ^ nat (- e)"
proof -
  have e: "e = binary_exponent p q - 52"
    and m: "m = nearest_even (p * 2 ^ nat (- e)) (q * 2 ^ nat e)"
    using assms(1,3) by (auto simp: round_binary64_def Let_def)
  have e0: "e < 0" using binary_exponent_le [OF assms(2)] e by simp
  have q0: "0 < q" using assms(1,2) by simp
  have "p * 2 ^ nat (- e) \<le> 2 ^ nat (- e) * q" using assms(2) by (simp add: mult.commute)
  from nearest_even_le [OF q0 this] have "m \<le> 2 ^ nat (- e)" using m e0 by simp
  then show ?thesis using e0 by simp
qed

lemma nearest_even_one: "nearest_even x (Suc 0) = x"
  by (simp add: nearest_even_def)

lemma round_binary64_times_100:
  assumes "m \<le> 2 ^ a" and "round_binary64 (m * 100) 1 = Double m' e'"
  shows "m' * 2 ^ nat e' \<le> 100 * 2 ^ (a + nat (- e'))"
proof (cases "m = 0")
  case True
  then show ?thesis using assms(2) by (simp add: round_binary64_def)
next
  case False
  let ?P = "m * 100"
  have P0: "0 < ?P" using False by simp
  have e: "e' = binary_exponent ?P 1 - 52"
    and m': "m' = nearest_even (?P * 2 ^ nat (- e')) (1 * 2 ^ nat e')"
    using assms(2) False by (auto simp: round_binary64_def Let_def)
  have P: "?P \<le> 100 * 2 ^ a" using assms(1) by simp
  show ?thesis
  proof (cases "e' \<le> 0")
    case True
    then have "m' = ?P * 2 ^ nat (- e')" using m' by (simp add: nearest_even_one)
    then show ?thesis using P True by (simp add: power_add)
  next
    case pos: False
    have "(0::nat) < 2 ^ a" by simp
    with assms(1) have "?P < 128 * 2 ^ a" by linarith
    also have "(128::nat) * 2 ^ a = 2 ^ (a + 7)" by (simp add: power_add)
    finally have "bits ?P \<le> a + 7" by (rule bits_less)
    then have "e' \<le> int a - 46"
      using binary_exponent_int [OF P0] e by simp
    then have j: "nat e' \<le> a" using pos by simp
    let ?j = "nat e'"
    let ?B = "100 * 2 ^ (a - ?j)"
    have split: "(2::nat) ^ a = 2 ^ (a - ?j) * 2 ^ ?j"
      using j by (simp add: power_add [symmetric])
    have "?P \<le> ?B * 2 ^ ?j" using P split by simp
    then have "nearest_even ?P (2 ^ ?j) \<le> ?B" by (intro nearest_even_le) simp_all
    then have "m' \<le> ?B" using m' pos by simp
    then have "m' * 2 ^ ?j \<le> ?B * 2 ^ ?j" by (rule mult_le_mono1)
    then show ?thesis using split pos by simp
  qed
qed

lemma Math_round_le_100:
  assumes "m' * 2 ^ nat e' \<le> 100 * 2 ^ (a + nat (- e'))"
  shows "Math_round (Double m' (e' - int a)) \<le> 100"
proof (cases "0 \<le> e' - int a")
  case True
  then have e: "nat e' = nat (e' - int a) + a" "nat (- e') = 0" by simp_all
  have "m' * 2 ^ nat (e' - int a) * 2 ^ a \<le> 100 * 2 ^ a"
    using assms by (simp add: e power_add mult.assoc)
  then have "m' * 2 ^ nat (e' - int a) \<le> 100" by simp
  then have "int (m' * 2 ^ nat (e' - int a)) \<le> int 100" by (simp only: of_nat_le_iff)
  then show ?thesis using True by (simp add: Math_round_def)
next
  case False
  define t where "t = nat (int a - e')"
  have t: "nat (- (e' - int a)) = t" "nat (1 - (e' - int a)) = Suc t"
    using False by (simp_all add: t_def)
  have m: "m' \<le> 100 * 2 ^ t"
  proof (cases "0 \<le> e'")
    case True
    then have a: "a = t + nat e'" "nat (- e') = 0" using False by (simp_all add: t_def)
    have "m' * 2 ^ nat e' \<le> (100 * 2 ^ t) * 2 ^ nat e'"
      using assms by (simp add: a power_add mult.assoc)
    then show ?thesis by simp
  next
    case neg: False
    then have "a + nat (- e') = t" "nat e' = 0" by (simp_all add: t_def)
    then show ?thesis using assms by simp
  qed
  have "(0::nat) < 2 ^ t" by simp
  with m have "2 * m' + 2 ^ t < 202 * 2 ^ t" by linarith
  then have "2 * m' + 2 ^ t < 101 * 2 ^ Suc t" by simp
  then have "(2 * m' + 2 ^ t) div 2 ^ Suc t < 101"
    by (intro less_mult_imp_div_less) simp
  then show ?thesis
    unfolding Math_round_def double.sel t using False by simp
qed

lemma percentage_le_100:
  assumes "c \<le> n" and "0 < n"
  shows "Math_round (double_mul (double_div c n) 100) \<le> 100"
proof (cases "c = 0")
  case True
  then show ?thesis
    by (simp add: double_div_def double_mul_def round_binary64_def Math_round_def)
next
  case False
  obtain m e where r1: "round_binary64 c n = Double m e"
    by (cases "round_binary64 c n") auto
  from round_binary64_le_one [OF _ assms(1) r1] False
  have e: "e \<le> 0" and m: "m \<le> 2 ^ nat (- e)" by simp_all
  obtain m' e' where r2: "round_binary64 (m * 100) 1 = Double m' e'"
    by (cases "round_binary64 (m * 100) 1") auto
  have mul: "double_mul (double_div c n) 100 = Double m' (e' - int (nat (- e)))"
    using e by (simp add: double_div_def double_mul_def r1 r2 del: One_nat_def)
  show ?thesis
    unfolding mul by (rule Math_round_le_100 [OF round_binary64_times_100 [OF m r2]])
qed

lemma Math_round_nonneg: "0 \<le> Math_round x"
  by (simp add: Math_round_def)

lemma score_questions_le: "fst (score_questions A i qs) \<le> length qs"
proof -
  have "card {j. j < length qs \<and> A (i + j) = Some (answerIndex (qs ! j))} \<le> card {..<length qs}"
    by (intro card_mono) auto
  then show ?thesis by (simp add: score_questions_count)
qed

lemma calculateScore_percentage_range:
  assumes "percentage (calculateScore now s) = Some v"
  shows "0 \<le> v \<and> v \<le> 100"
proof -
  let ?qs = "questions (currentPassage s)"
  let ?c = "fst (score_questions (userAnswers s) 0 ?qs)"
  have n: "0 < length ?qs" and v: "v = Math_round (double_mul (double_div ?c (length ?qs)) 100)"
    using assms by (auto simp: calculateScore_def Let_def split_beta split: if_splits)
  show ?thesis
    unfolding v using percentage_le_100 [OF score_questions_le n] Math_round_nonneg by simp
qed

lemma score_questions_breakdown:
  "length (snd (score_questions A k qs)) = length qs"
  "i < length qs \<Longrightarrow>
     isCorrect (snd (score_questions A k qs) ! i) = (A (k + i) = Some (answerIndex (qs ! i)))"
proof (induction qs arbitrary: k i)
  case Nil
  { case 1 show ?case by simp }
  { case 2 then show ?case by simp }
next
  case (Cons qu qus)
  { case 1 show ?case using Cons.IH(1) [of "Suc k"] by (simp add: Let_def split_beta) }
  { case 2 then show ?case using Cons.IH(2) [of "i - 1" "Suc k"]
      by (cases i) (simp_all add: Let_def split_beta) }
qed

lemma unanswered_never_correct:
  assumes "i < length (questions (currentPassage s))" and "userAnswers s i = None"
  shows "\<not> isCorrect (breakdown (calculateScore now s) ! i)"
  using score_questions_breakdown(2) [OF assms(1), of "userAnswers s" 0] assms(2)
  by (simp add: calculateScore_def Let_def split_beta)

subsection \<open>The percentage at 23 of 40\<close>

text \<open>
  C1. The claim: for a passage of \<open>N \<ge> 1\<close> questions the score is
  \<open>round(100 * |{i : A[i] = correctIndex[i]}| / N)\<close>, an unanswered question is
  never counted and the score lies in \<open>[0, 100]\<close>. The count is as claimed
  (\<open>calculateScore_correct\<close>, \<open>unanswered_never_correct\<close>) and so is the range
  (\<open>calculateScore_percentage_range\<close>), but the page rounds
  \<open>(correct / total) * 100\<close> in binary64, dividing first. On a passage of 40
  questions with exactly the first 23 answered correctly the quotient is not a binary
  fraction, the product is 57.49999999999999 and the page shows 57, where the claim's
  formula gives \<open>round 57.5 = 58\<close>.
\<close>

theorem calculateScore_23_of_40:
  "correct (calculateScore now (s\<lparr>currentPassage := forty_questions, userAnswers := first_23_right\<rparr>)) = 23
   \<and> total (calculateScore now (s\<lparr>currentPassage := forty_questions, userAnswers := first_23_right\<rparr>)) = 40
   \<and> percentage (calculateScore now (s\<lparr>currentPassage := forty_questions, userAnswers := first_23_right\<rparr>)) = Some 57
   \<and> spec_score first_23_right (questions forty_questions) = 58"
proof -
  let ?s = "s\<lparr>currentPassage := forty_questions, userAnswers := first_23_right\<rparr>"
  have c: "correct (calculateScore now ?s) = 23"
    unfolding calculateScore_correct by (simp add: first_23_right_count)
  have t: "total (calculateScore now ?s) = 40"
    by (simp add: calculateScore_def Let_def split_beta forty_questions_length)
  have "percentage (calculateScore now ?s)
          = Some (Math_round (double_mul (double_div (correct (calculateScore now ?s)) 40) 100))"
    by (simp add: calculateScore_def Let_def split_beta forty_questions_length)
  then have p: "percentage (calculateScore now ?s) = Some 57"
    by (simp only: c binary64_23_of_40 binary64_23_of_40_times_100 Math_round_23_of_40)
  have sp: "spec_score first_23_right (questions forty_questions) = 58"
    unfolding spec_score_def first_23_right_count
    by (simp add: forty_questions_length round_def)
  from c t p sp show ?thesis by simp
qed

section \<open>The timer and submission\<close>

lemma loadQuiz_demo: "loadQuiz [demo_passage] ''p1'' 0 (Some ''u1'') = Some demo_page"
  by (simp add: loadQuiz_def demo_page_def demo_passage_def startTimer_def setInterval_def
      updateTimerDisplay_def Let_def)

lemma remainingSeconds_mono:
  "now \<le> later \<Longrightarrow> remainingSeconds s later \<le> remainingSeconds s now"
proof -
  assume "now \<le> later"
  then have "(now - startTime s) div 1000 \<le> (later - startTime s) div 1000"
    by (intro zdiv_mono1) simp_all
  then show ?thesis by (simp add: remainingSeconds_def)
qed

lemma calculateScore_upd [simp]:
  "calculateScore now (s\<lparr>timeRemainingShown := x\<rparr>) = calculateScore now s"
  "calculateScore now (s\<lparr>activeIntervals := y\<rparr>) = calculateScore now s"
  "calculateScore now (s\<lparr>timerInterval := z\<rparr>) = calculateScore now s"
  "calculateScore now (s\<lparr>nextIntervalId := w\<rparr>) = calculateScore now s"
  by (simp_all add: calculateScore_def)

lemma tick_expired:
  assumes "ticking s" "timerInterval s = Some h" "remainingSeconds s now = 0"
  shows "tick h now now' s =
           showResults (calculateScore now' s) True
             (s\<lparr>timeRemainingShown := 0, activeIntervals := {}\<rparr>)"
proof -
  have act: "activeIntervals s = {h}" using assms by (simp add: ticking_def)
  show ?thesis
    using assms act
    by (simp add: tick_def submitQuiz_def clearInterval_def updateTimerDisplay_def Let_def)
qed

lemma tick_expired_any:
  assumes "h \<in> activeIntervals s" "remainingSeconds s now = 0"
  shows "tick h now now' s =
           showResults (calculateScore now' s) True
             (clearInterval (timerInterval s) (s\<lparr>timeRemainingShown := 0\<rparr>))"
  using assms
  by (simp add: tick_def submitQuiz_def updateTimerDisplay_def Let_def clearInterval_def
      split: option.splits)

lemma tick_inactive: "activeIntervals s = {} \<Longrightarrow> tick h now now' s = s"
  by (simp add: tick_def)

lemma showResults_active: "activeIntervals (showResults r a s) = activeIntervals s"
  by (simp add: showResults_def Let_def split: option.splits)

lemma showResults_shown: "shownResults (showResults r a s) = shownResults s @ [r]"
  by (simp add: showResults_def Let_def split: option.splits)

lemma tick_running:
  assumes "ticking s" "timerInterval s = Some h" "0 < remainingSeconds s now"
  shows "tick h now now' s = s\<lparr>timeRemainingShown := remainingSeconds s now\<rparr>"
  using assms by (simp add: tick_def ticking_def updateTimerDisplay_def Let_def)

lemma tick_cases:
  assumes "ticking s"
  shows "(ticking (tick h now now' s) \<and> shownResults (tick h now now' s) = shownResults s)
       \<or> (activeIntervals (tick h now now' s) = {} \<and> length (shownResults (tick h now now' s)) = Suc (length (shownResults s)))"
proof -
  from assms obtain g where g: "timerInterval s = Some g" "activeIntervals s = {g}"
    by (auto simp: ticking_def split: option.splits)
  show ?thesis
  proof (cases "h = g")
    case False
    then have "tick h now now' s = s" using g by (simp add: tick_def)
    then show ?thesis using assms by simp
  next
    case True
    show ?thesis
    proof (cases "remainingSeconds s now = 0")
      case z: True
      show ?thesis
        using tick_expired [OF assms, of g now now'] g True z
        by (simp add: showResults_active showResults_shown)
    next
      case False
      then have "0 < remainingSeconds s now" by (simp add: remainingSeconds_def)
      then show ?thesis
        using tick_running [OF assms, of g now now'] g True assms
        by (simp add: ticking_def)
    qed
  qed
qed

lemma run_ticks_inactive: "activeIntervals s = {} \<Longrightarrow> run_ticks evs s = s"
  by (induction evs arbitrary: s) (auto simp: tick_inactive)

lemma run_ticks_once:
  "ticking s \<Longrightarrow> length (shownResults (run_ticks evs s)) \<le> Suc (length (shownResults s))"
proof (induction evs arbitrary: s)
  case Nil
  then show ?case by simp
next
  case (Cons ev evs)
  obtain h now now' where ev: "ev = (h, now, now')" by (cases ev) auto
  from tick_cases [OF Cons.prems, of h now now'] show ?case
  proof
    assume a: "ticking (tick h now now' s) \<and> shownResults (tick h now now' s) = shownResults s"
    then show ?thesis using Cons.IH [of "tick h now now' s"] ev by simp
  next
    assume a: "activeIntervals (tick h now now' s) = {} \<and> length (shownResults (tick h now now' s)) = Suc (length (shownResults s))"
    then show ?thesis using run_ticks_inactive [of "tick h now now' s" evs] ev by simp
  qed
qed

lemma demo_page_ticking: "ticking demo_page \<and> timerInterval demo_page = Some 0"
  by (simp add: ticking_def demo_page_def)

lemma demo_remaining:
  "remainingSeconds demo_page 59000 = 1" "remainingSeconds demo_page 60000 = 0"
  "remainingSeconds demo_page 65000 = 0"
  by (simp_all add: remainingSeconds_def demo_page_def)

lemma startTimer_ticking: "activeIntervals s = {} \<Longrightarrow> ticking (startTimer s)"
  by (simp add: ticking_def startTimer_def setInterval_def updateTimerDisplay_def Let_def)

lemma submitQuiz_declined:
  assumes "answeredQuestions s < length (questions (currentPassage s))"
  shows "submitQuiz False False now s = startTimer (clearInterval (timerInterval s) s)"
  using assms
  by (simp add: submitQuiz_def Let_def answeredQuestions_def clearInterval_def split: option.splits)

lemma submitQuiz_proceeds:
  assumes "a \<or> \<not> answeredQuestions s < length (questions (currentPassage s)) \<or> c"
  shows "submitQuiz a c now s =
           showResults (calculateScore now s) a (clearInterval (timerInterval s) s)"
  using assms
  by (auto simp: submitQuiz_def Let_def answeredQuestions_def clearInterval_def split: option.splits)

lemma clearInterval_ticking: "ticking s \<Longrightarrow> activeIntervals (clearInterval (timerInterval s) s) = {}"
  by (auto simp: ticking_def clearInterval_def split: option.splits)

lemma active_ticking: "active s \<Longrightarrow> ticking s"
proof (induction rule: active.induct)
  case (loaded ps pid now u s)
  then show ?case
    by (auto simp: loadQuiz_def startTimer_ticking split: option.splits)
next
  case (answered s qi ai)
  then show ?case by (simp add: ticking_def selectAnswer_def split: option.splits)
next
  case (ticked s now h now')
  then obtain g where g: "timerInterval s = Some g" "activeIntervals s = {g}"
    by (auto simp: ticking_def split: option.splits)
  show ?case
  proof (cases "h = g")
    case True
    then show ?thesis using ticked g tick_running [of s g now now'] by (simp add: ticking_def)
  next
    case False
    then show ?thesis using ticked g by (simp add: tick_def)
  qed
next
  case (declined s now)
  then show ?case
    by (simp add: submitQuiz_declined startTimer_ticking clearInterval_ticking)
next
  case (retaken s c now' now)
  then have "activeIntervals (submitQuiz False c now s) = {}"
    by (simp add: submitQuiz_proceeds showResults_active clearInterval_ticking)
  then show ?case by (simp add: retakeQuiz_def startTimer_ticking)
next
  case (retaken_auto s h now later now')
  then have "activeIntervals (tick h now now' s) = {}"
    by (simp add: tick_expired showResults_active)
  then show ?case by (simp add: retakeQuiz_def startTimer_ticking)
qed

lemma demo_page_active: "active demo_page"
  by (rule active.loaded [OF loadQuiz_demo])

lemma showResults_recorded:
  "recordedAttempts (showResults r a s) =
     recordedAttempts s @
       (case currentUser s of None \<Rightarrow> []
        | Some u \<Rightarrow> [\<lparr>rec_passageId = passage_id (currentPassage s), rec_score = correct r,
                      rec_timeElapsed = timeElapsed r, rec_totalQuestions = total r\<rparr>])"
  by (simp add: showResults_def Let_def split: option.splits)

lemma showResults_frame [simp]:
  "userAnswers (showResults r a s) = userAnswers s"
  "startTime (showResults r a s) = startTime s"
  "currentPassage (showResults r a s) = currentPassage s"
  "timerInterval (showResults r a s) = timerInterval s"
  "currentUser (showResults r a s) = currentUser s"
  "timeLimit (showResults r a s) = timeLimit s"
  by (simp_all add: showResults_def Let_def split: option.splits)

lemma clearInterval_frame [simp]:
  "userAnswers (clearInterval h s) = userAnswers s"
  "startTime (clearInterval h s) = startTime s"
  "currentPassage (clearInterval h s) = currentPassage s"
  "timerInterval (clearInterval h s) = timerInterval s"
  "currentUser (clearInterval h s) = currentUser s"
  "timeLimit (clearInterval h s) = timeLimit s"
  "recordedAttempts (clearInterval h s) = recordedAttempts s"
  "shownResults (clearInterval h s) = shownResults s"
  "nextIntervalId (clearInterval h s) = nextIntervalId s"
  by (simp_all add: clearInterval_def split: option.splits)

lemma startTimer_frame [simp]:
  "userAnswers (startTimer s) = userAnswers s"
  "startTime (startTimer s) = startTime s"
  "currentPassage (startTimer s) = currentPassage s"
  "currentUser (startTimer s) = currentUser s"
  "timeLimit (startTimer s) = timeLimit s"
  "recordedAttempts (startTimer s) = recordedAttempts s"
  "shownResults (startTimer s) = shownResults s"
  "timerInterval (startTimer s) = Some (nextIntervalId s)"
  "activeIntervals (startTimer s) = insert (nextIntervalId s) (activeIntervals s)"
  by (simp_all add: startTimer_def setInterval_def updateTimerDisplay_def Let_def)

lemma calculateScore_cong:
  "currentPassage s' = currentPassage s \<Longrightarrow> userAnswers s' = userAnswers s \<Longrightarrow>
   startTime s' = startTime s \<Longrightarrow> calculateScore now s' = calculateScore now s"
  by (simp add: calculateScore_def)

lemma calculateScore_timeElapsed: "timeElapsed (calculateScore now s) = (now - startTime s) div 1000"
  by (simp add: calculateScore_def Let_def split_beta)

lemma calculateScore_total: "total (calculateScore now s) = length (questions (currentPassage s))"
  by (simp add: calculateScore_def Let_def split_beta)

lemma calculateScore_percentage:
  "percentage (calculateScore now s) = percentage (calculateScore later s)"
  "correct (calculateScore now s) = correct (calculateScore later s)"
  "breakdown (calculateScore now s) = breakdown (calculateScore later s)"
  by (simp_all add: calculateScore_def Let_def split_beta)

lemma demo_page_unanswered: "answeredQuestions demo_page = 0" "length (questions (currentPassage demo_page)) = 2"
  by (simp_all add: answeredQuestions_def demo_page_def demo_passage_def)

lemma leaked_page_fields:
  "activeIntervals leaked_page = {1, 2}" "timerInterval leaked_page = Some 2"
  "startTime leaked_page = 62000" "timeLimit leaked_page = 60"
  "length (shownResults leaked_page) = 1"
proof -
  let ?s1 = "tick 0 60000 60000 demo_page"
  have e1: "?s1 = showResults (calculateScore 60000 demo_page) True
        (demo_page\<lparr>timeRemainingShown := 0, activeIntervals := {}\<rparr>)"
    using tick_expired [of demo_page 0 60000 60000] demo_page_ticking demo_remaining by simp
  have f1: "activeIntervals ?s1 = {}" "timerInterval ?s1 = Some 0" "nextIntervalId ?s1 = 1"
    "answeredQuestions ?s1 = 0" "length (questions (currentPassage ?s1)) = 2"
    "length (shownResults ?s1) = 1" "timeLimit ?s1 = 60"
    by (simp_all add: e1 showResults_active showResults_shown answeredQuestions_def)
       (simp_all add: demo_page_def demo_passage_def showResults_def Let_def)
  let ?s2 = "submitQuiz False False 61000 ?s1"
  have e2: "?s2 = startTimer (clearInterval (timerInterval ?s1) ?s1)"
    by (rule submitQuiz_declined) (simp add: f1)
  have f2: "activeIntervals ?s2 = {1}" "timerInterval ?s2 = Some 1" "nextIntervalId ?s2 = 2"
    "length (shownResults ?s2) = 1" "timeLimit ?s2 = 60"
    by (simp_all add: e2 f1) (simp_all add: startTimer_def setInterval_def updateTimerDisplay_def
        clearInterval_def f1 Let_def)
  show "activeIntervals leaked_page = {1, 2}" "timerInterval leaked_page = Some 2"
    "startTime leaked_page = 62000" "timeLimit leaked_page = 60"
    "length (shownResults leaked_page) = 1"
    by (auto simp: leaked_page_def retakeQuiz_def f2)
qed

text \<open>
  C3. The claim: in an active session the automatic submission fires exactly once, the
  tick source being stopped with it. \<open>submitQuiz\<close> clears the interval that
  \<open>timerInterval\<close> names, and \<open>startTimer\<close> overwrites that name without clearing
  the interval it named. After a timeout, a submission declined while the results are
  shown and a retake, two intervals run; when the time of the retaken quiz is up, the
  submission clears the newer one and the older one submits again at every tick: the
  results, shown once before the retake, are shown twice more by two ticks.
\<close>

theorem leaked_interval_submits_again:
  "activeIntervals leaked_page = {1, 2}
   \<and> length (shownResults leaked_page) = 1
   \<and> remainingSeconds leaked_page 122000 = 0
   \<and> length (shownResults (tick 1 122000 122000 leaked_page)) = 2
   \<and> activeIntervals (tick 1 122000 122000 leaked_page) = {1}
   \<and> length (shownResults (run_ticks [(1, 122000, 122000), (1, 123000, 123000)] leaked_page)) = 3"
proof -
  have r: "remainingSeconds leaked_page 122000 = 0" "remainingSeconds leaked_page 123000 = 0"
    by (simp_all add: remainingSeconds_def leaked_page_fields)
  let ?s1 = "tick 1 122000 122000 leaked_page"
  have e1: "?s1 = submitQuiz True False 122000 (updateTimerDisplay 0 leaked_page)"
    unfolding tick_def by (simp add: leaked_page_fields r Let_def)
  have p1: "?s1 = showResults (calculateScore 122000 leaked_page) True
      (clearInterval (Some 2) (updateTimerDisplay 0 leaked_page))"
    unfolding e1 by (subst submitQuiz_proceeds) (simp_all add: updateTimerDisplay_def leaked_page_fields)
  have f1: "activeIntervals ?s1 = {1}" "length (shownResults ?s1) = 2"
    "startTime ?s1 = 62000" "timeLimit ?s1 = 60" "timerInterval ?s1 = Some 2"
    unfolding p1
    by (simp_all add: showResults_active showResults_shown)
       (auto simp: clearInterval_def updateTimerDisplay_def leaked_page_fields)
  have r1: "remainingSeconds ?s1 123000 = 0"
    by (simp add: remainingSeconds_def f1 del: One_nat_def)
  let ?s2 = "tick 1 123000 123000 ?s1"
  have e2: "?s2 = submitQuiz True False 123000 (updateTimerDisplay 0 ?s1)"
    unfolding tick_def [of 1 123000] by (simp add: f1 r1 Let_def del: One_nat_def)
  have p2: "?s2 = showResults (calculateScore 123000 (updateTimerDisplay 0 ?s1)) True
      (clearInterval (timerInterval (updateTimerDisplay 0 ?s1)) (updateTimerDisplay 0 ?s1))"
    unfolding e2 by (rule submitQuiz_proceeds) simp
  have "length (shownResults ?s2) = 3"
    unfolding p2 by (simp add: showResults_shown updateTimerDisplay_def f1 del: One_nat_def)
  then have "length (shownResults (run_ticks [(1, 122000, 122000), (1, 123000, 123000)] leaked_page)) = 3"
    by (simp del: One_nat_def)
  with leaked_page_fields(1,5) r(1) f1(1,2) show ?thesis by (intro conjI)
qed

text \<open>
  What holds of C3: the remaining seconds never increase from one clock reading to a
  later one and are never negative; and while the interval that \<open>timerInterval\<close>
  names is the only one running, as in every state of \<open>active\<close>, a tick that finds
  time left only updates the countdown, the tick that finds 0 shows the results once
  (with the time-expired toast) and leaves no interval running, no later tick changes
  anything, and over any run of ticks the results are shown at most once.
\<close>

theorem timer_counts_down_and_submits_once:
  "(now \<le> later \<longrightarrow> remainingSeconds s later \<le> remainingSeconds s now)
   \<and> 0 \<le> remainingSeconds s now
   \<and> (ticking s \<and> timerInterval s = Some h \<and> 0 < remainingSeconds s now \<longrightarrow>
        tick h now now' s = s\<lparr>timeRemainingShown := remainingSeconds s now\<rparr>)
   \<and> (ticking s \<and> timerInterval s = Some h \<and> remainingSeconds s now = 0 \<longrightarrow>
        shownResults (tick h now now' s) = shownResults s @ [calculateScore now' s]
        \<and> toasts (tick h now now' s) = toasts s @ [''Time expired! Quiz submitted automatically.'']
        \<and> activeIntervals (tick h now now' s) = {}
        \<and> run_ticks evs (tick h now now' s) = tick h now now' s)
   \<and> (ticking s \<longrightarrow> length (shownResults (run_ticks evs s)) \<le> Suc (length (shownResults s)))"
proof (intro conjI impI)
  assume "now \<le> later"
  then show "remainingSeconds s later \<le> remainingSeconds s now"
    by (rule remainingSeconds_mono)
next
  show "0 \<le> remainingSeconds s now" by (simp add: remainingSeconds_def)
next
  assume "ticking s \<and> timerInterval s = Some h \<and> 0 < remainingSeconds s now"
  then show "tick h now now' s = s\<lparr>timeRemainingShown := remainingSeconds s now\<rparr>"
    by (simp add: tick_running)
next
  assume a: "ticking s \<and> timerInterval s = Some h \<and> remainingSeconds s now = 0"
  then have eq: "tick h now now' s =
      showResults (calculateScore now' s) True (s\<lparr>timeRemainingShown := 0, activeIntervals := {}\<rparr>)"
    by (simp add: tick_expired)
  show "shownResults (tick h now now' s) = shownResults s @ [calculateScore now' s]"
    by (simp add: eq showResults_shown)
  show "toasts (tick h now now' s) = toasts s @ [''Time expired! Quiz submitted automatically.'']"
    by (simp add: eq showResults_def Let_def split: option.splits)
  show off: "activeIntervals (tick h now now' s) = {}"
    by (simp add: eq showResults_active)
  show "run_ticks evs (tick h now now' s) = tick h now now' s"
    using off by (rule run_ticks_inactive)
next
  assume "ticking s"
  then show "length (shownResults (run_ticks evs s)) \<le> Suc (length (shownResults s))"
    by (rule run_ticks_once)
qed

theorem timer_counts_down_and_submits_once_witness:
  "remainingSeconds demo_page 60000 \<le> remainingSeconds demo_page 59000
   \<and> tick 0 59000 59000 demo_page = demo_page\<lparr>timeRemainingShown := 1\<rparr>
   \<and> shownResults (tick 0 60000 60000 demo_page) = [calculateScore 60000 demo_page]
   \<and> activeIntervals (tick 0 60000 60000 demo_page) = {}
   \<and> run_ticks [(0, 61000, 61000), (0, 62000, 62000)] (tick 0 60000 60000 demo_page)
       = tick 0 60000 60000 demo_page
   \<and> length (shownResults (run_ticks [(0, 59000, 59000), (0, 60000, 60000), (0, 61000, 61000)] demo_page)) \<le> 1"
  using timer_counts_down_and_submits_once [of 59000 60000 demo_page 0 59000 "[(0, 61000, 61000), (0, 62000, 62000)]"]
        timer_counts_down_and_submits_once [of 60000 60000 demo_page 0 60000 "[(0, 61000, 61000), (0, 62000, 62000)]"]
        timer_counts_down_and_submits_once [of 60000 60000 demo_page 0 60000 "[(0, 59000, 59000), (0, 60000, 60000), (0, 61000, 61000)]"]
        demo_page_ticking demo_remaining
  by (simp add: demo_page_def)

text \<open>
  C5. The claim: the elapsed time recorded for an automatic submission is capped at the
  time limit. The page has no cap: it records \<open>floor((now - startTime) / 1000)\<close> with the
  clock as \<open>calculateScore\<close> reads it. With a one-minute limit and the tick running at
  65 seconds, 65 is recorded.
\<close>

theorem auto_submit_time_exceeds_limit:
  "timeLimit demo_page = 60
   \<and> remainingSeconds demo_page 65000 = 0
   \<and> map rec_timeElapsed (recordedAttempts (tick 0 65000 65000 demo_page)) = [65]"
proof -
  have e: "tick 0 65000 65000 demo_page =
      showResults (calculateScore 65000 demo_page) True
        (demo_page\<lparr>timeRemainingShown := 0, activeIntervals := {}\<rparr>)"
    using tick_expired [of demo_page 0 65000 65000] demo_page_ticking demo_remaining by simp
  have u: "currentUser demo_page = Some ''u1''" "startTime demo_page = 0"
    "recordedAttempts demo_page = []" "timeLimit demo_page = 60"
    by (simp_all add: demo_page_def)
  show ?thesis
    by (simp add: e showResults_recorded calculateScore_timeElapsed u demo_remaining)
qed

text \<open>
  C5, as amended. For an automatic submission with a user signed in, one attempt is
  recorded; its elapsed time is \<open>floor((now - startTime) / 1000)\<close>, with the clock read
  when the score is calculated, and it is at least the time limit in seconds, not at
  most.
\<close>

theorem auto_submit_records_uncapped_time:
  assumes "h \<in> activeIntervals s" and "remainingSeconds s now = 0"
    and "now \<le> now'" and "currentUser s = Some u"
  shows "recordedAttempts (tick h now now' s) =
           recordedAttempts s @
             [\<lparr>rec_passageId = passage_id (currentPassage s),
               rec_score = correct (calculateScore now' s),
               rec_timeElapsed = (now' - startTime s) div 1000,
               rec_totalQuestions = length (questions (currentPassage s))\<rparr>]
         \<and> timeLimit s \<le> (now' - startTime s) div 1000"
proof -
  have "(now - startTime s) div 1000 \<le> (now' - startTime s) div 1000"
    using assms(3) by (intro zdiv_mono1) simp_all
  moreover have "timeLimit s \<le> (now - startTime s) div 1000"
    using assms(2) by (simp add: remainingSeconds_def)
  ultimately have "timeLimit s \<le> (now' - startTime s) div 1000" by simp
  then show ?thesis
    using assms(4)
    by (simp add: tick_expired_any [OF assms(1) assms(2)] showResults_recorded
        calculateScore_timeElapsed calculateScore_total)
qed

theorem auto_submit_records_uncapped_time_witness:
  "0 \<in> activeIntervals demo_page \<and> remainingSeconds demo_page 60000 = 0
   \<and> currentUser demo_page = Some ''u1''
   \<and> map rec_timeElapsed (recordedAttempts (tick 0 60000 60200 demo_page)) = [60]
   \<and> timeLimit demo_page \<le> 60"
  using auto_submit_records_uncapped_time [of 0 demo_page 60000 60200 "''u1''"] demo_remaining
  by (simp add: demo_page_def)

text \<open>
  C9. A manual submission with fewer answers than questions that the user declines leaves
  the answers, the start time, the time limit and the passage as they were, records no
  attempt and shows no result; the timer runs again under a new handle, and the remaining
  seconds still count from the original start time, whenever the dialog was closed.
\<close>

theorem declined_submit_keeps_session:
  assumes "answeredQuestions s < length (questions (currentPassage s))"
  shows "userAnswers (submitQuiz False False now s) = userAnswers s
       \<and> startTime (submitQuiz False False now s) = startTime s
       \<and> timeLimit (submitQuiz False False now s) = timeLimit s
       \<and> currentPassage (submitQuiz False False now s) = currentPassage s
       \<and> recordedAttempts (submitQuiz False False now s) = recordedAttempts s
       \<and> shownResults (submitQuiz False False now s) = shownResults s
       \<and> remainingSeconds (submitQuiz False False now s) t = remainingSeconds s t
       \<and> timerInterval (submitQuiz False False now s) = Some (nextIntervalId s)
       \<and> nextIntervalId s \<in> activeIntervals (submitQuiz False False now s)
       \<and> (ticking s \<longrightarrow> ticking (submitQuiz False False now s))"
proof -
  have e: "submitQuiz False False now s = startTimer (clearInterval (timerInterval s) s)"
    using assms by (rule submitQuiz_declined)
  have "ticking s \<longrightarrow> ticking (startTimer (clearInterval (timerInterval s) s))"
    by (simp add: startTimer_ticking clearInterval_ticking)
  then show ?thesis
    unfolding e by (simp add: remainingSeconds_def)
qed

theorem declined_submit_keeps_session_witness:
  "answeredQuestions demo_page < length (questions (currentPassage demo_page))
   \<and> ticking demo_page
   \<and> userAnswers (submitQuiz False False 30000 demo_page) = Map.empty
   \<and> startTime (submitQuiz False False 30000 demo_page) = 0
   \<and> recordedAttempts (submitQuiz False False 30000 demo_page) = []
   \<and> shownResults (submitQuiz False False 30000 demo_page) = []
   \<and> remainingSeconds (submitQuiz False False 30000 demo_page) 31000 = 29
   \<and> timerInterval (submitQuiz False False 30000 demo_page) = Some 1
   \<and> ticking (submitQuiz False False 30000 demo_page)"
proof -
  have r: "remainingSeconds demo_page 31000 = 29"
    by (simp add: remainingSeconds_def demo_page_def)
  have f: "userAnswers demo_page = Map.empty" "startTime demo_page = 0"
    "recordedAttempts demo_page = []" "shownResults demo_page = []" "nextIntervalId demo_page = 1"
    by (simp_all add: demo_page_def)
  show ?thesis
    using declined_submit_keeps_session [of demo_page 30000 31000] demo_page_ticking
    by (simp add: demo_page_unanswered r f)
qed

lemma demo_answered_fields:
  "answeredQuestions demo_answered = 2"
  "length (questions (currentPassage demo_answered)) = 2"
  "currentUser demo_answered = Some ''u1''"
  "startTime demo_answered = 0"
  "recordedAttempts demo_answered = []"
  "shownResults demo_answered = []"
  "passage_id (currentPassage demo_answered) = ''p1''"
  by (simp_all add: demo_answered_def selectAnswer_def answeredQuestions_def demo_page_def
      demo_passage_def)

lemma binary64_2_of_2: "Math_round (double_mul (double_div 2 2) 100) = 100"
  by (simp add: double_div_def double_mul_def round_binary64_def binary_exponent_def
      nearest_even_def Math_round_def bits.simps Let_def)

lemma demo_answered_count:
  "fst (score_questions (userAnswers demo_answered) 0 (questions (currentPassage demo_answered))) = 2"
  by (simp add: demo_answered_def selectAnswer_def demo_page_def demo_passage_def Let_def split_beta)

lemma demo_answered_score:
  "correct (calculateScore now demo_answered) = 2"
  "percentage (calculateScore now demo_answered) = Some 100"
  by (simp_all add: calculateScore_def Let_def split_beta demo_answered_count
      demo_answered_fields binary64_2_of_2)

text \<open>
  C2. The claim: a second submission after the results are shown has no effect and saves
  no duplicate attempt. \<open>submitQuiz\<close> has no guard: with both questions answered, submitting
  twice (Ctrl+Enter is still bound while the results are shown) records two attempts.
\<close>

theorem second_submit_records_duplicate:
  "recordedAttempts (submitQuiz False False 20000 (submitQuiz False False 10000 demo_answered)) =
     [\<lparr>rec_passageId = ''p1'', rec_score = 2, rec_timeElapsed = 10, rec_totalQuestions = 2\<rparr>,
      \<lparr>rec_passageId = ''p1'', rec_score = 2, rec_timeElapsed = 20, rec_totalQuestions = 2\<rparr>]"
proof -
  let ?s1 = "submitQuiz False False 10000 demo_answered"
  have e1: "?s1 = showResults (calculateScore 10000 demo_answered) False
                    (clearInterval (timerInterval demo_answered) demo_answered)"
    by (rule submitQuiz_proceeds) (simp add: demo_answered_fields)
  have f1: "userAnswers ?s1 = userAnswers demo_answered"
    "currentPassage ?s1 = currentPassage demo_answered"
    "currentUser ?s1 = currentUser demo_answered" "startTime ?s1 = startTime demo_answered"
    by (simp_all add: e1)
  have a1: "answeredQuestions ?s1 = 2"
    using demo_answered_fields(1) by (simp add: answeredQuestions_def f1)
  have r1: "recordedAttempts ?s1 =
      [\<lparr>rec_passageId = ''p1'', rec_score = 2, rec_timeElapsed = 10, rec_totalQuestions = 2\<rparr>]"
    by (simp add: e1 showResults_recorded demo_answered_fields demo_answered_score
        calculateScore_timeElapsed calculateScore_total)
  have e2: "submitQuiz False False 20000 ?s1 =
      showResults (calculateScore 20000 ?s1) False (clearInterval (timerInterval ?s1) ?s1)"
    by (rule submitQuiz_proceeds) (simp add: a1 f1 demo_answered_fields)
  have cs: "calculateScore 20000 ?s1 = calculateScore 20000 demo_answered"
    by (rule calculateScore_cong) (simp_all add: f1)
  show ?thesis
    unfolding e2 showResults_recorded cs
    by (simp add: f1 r1 demo_answered_score calculateScore_timeElapsed calculateScore_total
        demo_answered_fields)
qed

text \<open>
  C2, as amended. A second submission that goes ahead (automatic, or with every question
  answered, or confirmed) leaves the answers unchanged and shows the same correct count,
  percentage and breakdown again, so the displayed score is unchanged; it is not ignored:
  the results are shown a second time and, when a user is signed in, one more attempt is
  recorded, with the elapsed time read anew. The timer stays stopped.
\<close>

theorem second_submit_repeats_score_and_attempt:
  assumes "a1 \<or> \<not> answeredQuestions s < length (questions (currentPassage s)) \<or> c1"
    and "a2 \<or> \<not> answeredQuestions s < length (questions (currentPassage s)) \<or> c2"
  shows "userAnswers (submitQuiz a2 c2 t2 (submitQuiz a1 c1 t1 s)) = userAnswers s
       \<and> shownResults (submitQuiz a1 c1 t1 s) = shownResults s @ [calculateScore t1 s]
       \<and> shownResults (submitQuiz a2 c2 t2 (submitQuiz a1 c1 t1 s))
           = shownResults s @ [calculateScore t1 s, calculateScore t2 s]
       \<and> correct (calculateScore t2 s) = correct (calculateScore t1 s)
       \<and> percentage (calculateScore t2 s) = percentage (calculateScore t1 s)
       \<and> breakdown (calculateScore t2 s) = breakdown (calculateScore t1 s)
       \<and> recordedAttempts (submitQuiz a2 c2 t2 (submitQuiz a1 c1 t1 s))
           = recordedAttempts (submitQuiz a1 c1 t1 s) @
             (case currentUser s of None \<Rightarrow> []
              | Some u \<Rightarrow> [\<lparr>rec_passageId = passage_id (currentPassage s),
                            rec_score = correct (calculateScore t1 s),
                            rec_timeElapsed = (t2 - startTime s) div 1000,
                            rec_totalQuestions = length (questions (currentPassage s))\<rparr>])
       \<and> activeIntervals (submitQuiz a2 c2 t2 (submitQuiz a1 c1 t1 s))
           = activeIntervals (submitQuiz a1 c1 t1 s)"
proof -
  let ?s0 = "clearInterval (timerInterval s) s"
  let ?s1 = "submitQuiz a1 c1 t1 s"
  have e1: "?s1 = showResults (calculateScore t1 s) a1 ?s0"
    using assms(1) by (rule submitQuiz_proceeds)
  have ans: "answeredQuestions ?s1 = answeredQuestions s"
    by (simp add: e1 answeredQuestions_def)
  have cp: "currentPassage ?s1 = currentPassage s" "currentUser ?s1 = currentUser s"
    "startTime ?s1 = startTime s" "userAnswers ?s1 = userAnswers s"
    by (simp_all add: e1)
  have pre2: "a2 \<or> \<not> answeredQuestions ?s1 < length (questions (currentPassage ?s1)) \<or> c2"
    using assms(2) by (simp only: ans cp)
  have cp: "currentPassage ?s1 = currentPassage s" "currentUser ?s1 = currentUser s"
    "startTime ?s1 = startTime s" "userAnswers ?s1 = userAnswers s"
    by (simp_all add: e1)
  have pre2: "a2 \<or> \<not> answeredQuestions ?s1 < length (questions (currentPassage ?s1)) \<or> c2"
    using assms(2) by (simp only: ans cp)
  have e2: "submitQuiz a2 c2 t2 ?s1 =
      showResults (calculateScore t2 ?s1) a2 (clearInterval (timerInterval ?s1) ?s1)"
    by (rule submitQuiz_proceeds [OF pre2])
  have cs: "calculateScore t2 ?s1 = calculateScore t2 s"
    by (rule calculateScore_cong) (simp_all add: e1)
  have act: "activeIntervals (clearInterval (timerInterval ?s1) ?s1) = activeIntervals ?s1"
    by (auto simp: e1 showResults_active clearInterval_def split: option.splits)
  have p: "correct (calculateScore t2 s) = correct (calculateScore t1 s)"
    "percentage (calculateScore t2 s) = percentage (calculateScore t1 s)"
    "breakdown (calculateScore t2 s) = breakdown (calculateScore t1 s)"
    by (rule calculateScore_percentage)+
  have sh1: "shownResults ?s1 = shownResults s @ [calculateScore t1 s]"
    by (simp add: e1 showResults_shown)
  have sh2: "shownResults (submitQuiz a2 c2 t2 ?s1) = shownResults s @ [calculateScore t1 s, calculateScore t2 s]"
    by (simp add: e2 cs showResults_shown sh1)
  have rc: "recordedAttempts (submitQuiz a2 c2 t2 ?s1)
           = recordedAttempts ?s1 @
             (case currentUser s of None \<Rightarrow> []
              | Some u \<Rightarrow> [\<lparr>rec_passageId = passage_id (currentPassage s),
                            rec_score = correct (calculateScore t1 s),
                            rec_timeElapsed = (t2 - startTime s) div 1000,
                            rec_totalQuestions = length (questions (currentPassage s))\<rparr>])"
    unfolding e2 cs showResults_recorded
    by (simp add: cp calculateScore_timeElapsed calculateScore_total p(1) split: option.splits)
  have ua: "userAnswers (submitQuiz a2 c2 t2 ?s1) = userAnswers s"
    unfolding e2 by (simp add: cp)
  have ai: "activeIntervals (submitQuiz a2 c2 t2 ?s1) = activeIntervals ?s1"
    by (simp add: e2 showResults_active act)
  from ua sh1 sh2 p rc ai show ?thesis by (intro conjI)
qed

theorem second_submit_repeats_score_and_attempt_witness:
  "\<not> answeredQuestions demo_answered < length (questions (currentPassage demo_answered))
   \<and> userAnswers (submitQuiz False False 20000 (submitQuiz False False 10000 demo_answered))
       = userAnswers demo_answered
   \<and> map percentage (shownResults (submitQuiz False False 20000 (submitQuiz False False 10000 demo_answered)))
       = [Some 100, Some 100]
   \<and> length (recordedAttempts (submitQuiz False False 20000 (submitQuiz False False 10000 demo_answered)))
       = Suc (length (recordedAttempts (submitQuiz False False 10000 demo_answered)))"
  using second_submit_repeats_score_and_attempt [of False demo_answered False False False 20000 10000]
  by (simp add: demo_answered_fields demo_answered_score)

section \<open>Properties of the question parser\<close>

text \<open>The loop gives, block by block, the questions of the grammar.\<close>

lemma absorb_snoc:
  "absorb c (body @ [l]) = (if is_option_line l then push_option (absorb c body) l else absorb c body)"
  by (simp add: absorb_def)

lemma absorb_Cons:
  "absorb c (l # body) = absorb (if is_option_line l then push_option c l else c) body"
  by (simp add: absorb_def)

lemma absorb_Nil: "absorb c [] = c"
  by (simp add: absorb_def)

lemma parse_lines_blocks:
  "finish (parse_lines ls qs cur) =
     qs @ (case cur of None \<Rightarrow> []
           | Some c \<Rightarrow> [absorb c (takeWhile (\<lambda>x. \<not> is_question_line x) ls)])
        @ map (\<lambda>b. absorb (new_question (fst b)) (snd b)) (blocks ls)"
proof (induction ls arbitrary: qs cur)
  case Nil
  then show ?case by (simp add: finish_def absorb_Nil split: option.splits)
next
  case (Cons l ls)
  show ?case
  proof (cases "is_question_line l")
    case True
    then show ?thesis
      by (simp add: Cons.IH absorb_Nil split: option.splits)
  next
    case False
    then show ?thesis
      by (cases cur) (simp_all add: Cons.IH absorb_Cons)
  qed
qed

lemma absorb_text: "pq_text (absorb c body) = pq_text c"
  by (induction body rule: rev_induct) (simp_all add: absorb_Nil absorb_snoc push_option_def Let_def)

lemma absorb_options:
  "pq_options (absorb c body) = pq_options c @ map option_text (filter is_option_line body)"
  by (induction body rule: rev_induct) (simp_all add: absorb_Nil absorb_snoc push_option_def Let_def)

lemma absorb_correctIndex:
  "correctIndex (absorb c body) =
     (case map fst (filter (\<lambda>(i, line). 0x2A \<in> set line) (enumerate 0 (filter is_option_line body))) of
        [] \<Rightarrow> correctIndex c
      | ms \<Rightarrow> int (length (pq_options c)) + int (last ms))"
proof (induction body rule: rev_induct)
  case Nil
  then show ?case by (simp add: absorb_Nil)
next
  case (snoc l body)
  show ?case
  proof (cases "is_option_line l")
    case False
    then show ?thesis using snoc by (simp add: absorb_snoc)
  next
    case True
    then show ?thesis
      using snoc
      by (simp add: absorb_snoc push_option_def Let_def absorb_options enumerate_append_eq
          split: list.splits)
  qed
qed

lemma marked_enumerate:
  "map fst (filter (\<lambda>(i, line). 0x2A \<in> set line) (enumerate 0 xs)) =
     filter (\<lambda>i. (0x2A::nat) \<in> set (xs ! i)) [0..<length xs]"
proof (induction xs rule: rev_induct)
  case Nil
  then show ?case by simp
next
  case (snoc l xs)
  have "filter (\<lambda>i. (0x2A::nat) \<in> set ((xs @ [l]) ! i)) [0..<length xs]
          = filter (\<lambda>i. (0x2A::nat) \<in> set (xs ! i)) [0..<length xs]"
    by (rule filter_cong) (simp_all add: nth_append)
  then show ?case using snoc by (simp add: enumerate_append_eq)
qed

lemma absorb_new_question:
  "absorb (new_question (fst b)) (snd b) = question_of_block b"
  by (simp add: question_of_block_def absorb_text absorb_options absorb_correctIndex
      new_question_def block_options_def marked_options_def marked_enumerate split: list.splits)

lemmas parse_defs = parseQuestionText_def pasted_lines_def text_of_lines_def units_def trim_def is_space_def
      toLowerCase_def startsWith_def is_question_line_def is_option_line_def new_question_def
      option_text_def push_option_def Let_def

lemma parse_two_question_block: "parseQuestionText two_question_block =
   [\<lparr>pq_text = units ''What is 2+2?'', pq_options = map units [''3'', ''4'', ''5'', ''6''], correctIndex = 1\<rparr>,
    \<lparr>pq_text = units ''Capital of France?'', pq_options = map units [''Paris'', ''Rome'', ''Berlin'', ''Madrid''], correctIndex = 0\<rparr>]"
  by (simp add: two_question_block_def parse_defs)

lemma parse_three_option_block: "parseQuestionText three_option_block =
   [\<lparr>pq_text = units ''Capital of France?'', pq_options = map units [''Paris'', ''Rome'', ''Berlin'', ''Madrid''], correctIndex = 0\<rparr>]"
  by (simp add: three_option_block_def parse_defs)

lemma parse_two_marks_block: "parseQuestionText two_marks_block =
   [\<lparr>pq_text = units ''Pick one'', pq_options = map units [''yes'', ''no'', ''maybe'', ''never''], correctIndex = 1\<rparr>]"
  by (simp add: two_marks_block_def parse_defs)

lemma parse_one_empty_option_block:
  "parseQuestionText one_empty_option_block =
     [\<lparr>pq_text = units ''Pick one'', pq_options = map units ['''', ''no'', ''maybe'', ''never''], correctIndex = 0\<rparr>]"
  by (simp add: one_empty_option_block_def parse_defs)

lemma parse_unmarked_block: "parseQuestionText unmarked_block = []"
  by (simp add: unmarked_block_def parse_defs)

lemma parse_spaced_block: "parseQuestionText spaced_block =
   [\<lparr>pq_text = units ''Pick one'', pq_options = map units [''yes'', ''no'', ''maybe'', ''never''], correctIndex = 0\<rparr>]"
  by (simp add: spaced_block_def parse_defs)


lemma two_marks_block_marked:
  "length (filter (\<lambda>line. is_option_line line \<and> 0x2A \<in> set line)
     (split_newline two_marks_block)) = 2"
  by (simp add: two_marks_block_def text_of_lines_def units_def is_option_line_def)

lemma marked_options_set:
  "set (marked_options b) = {i. i < length (block_options b) \<and> 0x2A \<in> set (block_options b ! i)}"
  by (auto simp: marked_options_def)

lemma marked_options_last:
  assumes "marked_options b \<noteq> []"
  shows "last (marked_options b) < length (block_options b)"
    and "0x2A \<in> set (block_options b ! last (marked_options b))"
    and "\<forall>i. last (marked_options b) < i \<and> i < length (block_options b)
           \<longrightarrow> 0x2A \<notin> set (block_options b ! i)"
proof -
  have l: "last (marked_options b) \<in> set (marked_options b)"
    using assms by simp
  then show "last (marked_options b) < length (block_options b)"
    and "0x2A \<in> set (block_options b ! last (marked_options b))"
    by (simp_all add: marked_options_set)
  have s: "sorted (marked_options b)"
    by (simp add: marked_options_def sorted_wrt_filter)
  show "\<forall>i. last (marked_options b) < i \<and> i < length (block_options b)
           \<longrightarrow> 0x2A \<notin> set (block_options b ! i)"
  proof (intro allI impI notI)
    fix i
    assume i: "last (marked_options b) < i \<and> i < length (block_options b)"
      and m: "0x2A \<in> set (block_options b ! i)"
    then have "i \<in> set (marked_options b)" by (simp add: marked_options_set)
    then obtain k where k: "k < length (marked_options b)" "marked_options b ! k = i"
      by (auto simp: in_set_conv_nth)
    have "marked_options b ! k \<le> marked_options b ! (length (marked_options b) - 1)"
      by (rule sorted_nth_mono [OF s]) (use k in auto)
    then have "i \<le> last (marked_options b)"
      using k assms by (simp add: last_conv_nth)
    then show False using i by simp
  qed
qed

lemma accepted_block_marked:
  "accepted_block b =
     (trim (drop 9 (fst b)) \<noteq> [] \<and> length (block_options b) = 4
      \<and> (\<exists>line \<in> set (block_options b). 0x2A \<in> set line))"
proof -
  have "(marked_options b \<noteq> []) = (\<exists>line \<in> set (block_options b). 0x2A \<in> set line)"
  proof
    assume "marked_options b \<noteq> []"
    from marked_options_last(1,2) [OF this] show "\<exists>line \<in> set (block_options b). 0x2A \<in> set line"
      using nth_mem by blast
  next
    assume "\<exists>line \<in> set (block_options b). 0x2A \<in> set line"
    then obtain i where "i < length (block_options b)" "0x2A \<in> set (block_options b ! i)"
      by (metis in_set_conv_nth)
    then have "i \<in> set (marked_options b)" by (simp add: marked_options_set)
    then show "marked_options b \<noteq> []" by auto
  qed
  then show ?thesis by (simp add: accepted_block_def)
qed

lemma accepted_question_of_block:
  "(pq_text (question_of_block b) \<noteq> [] \<and> length (pq_options (question_of_block b)) = 4
      \<and> 0 \<le> correctIndex (question_of_block b)) = accepted_block b"
  by (auto simp: question_of_block_def accepted_block_def split: list.splits)

lemma parseQuestionText_blocks:
  "parseQuestionText txt =
     map question_of_block (filter accepted_block (blocks (pasted_lines txt)))"
proof -
  have "parseQuestionText txt =
          filter (\<lambda>q. pq_text q \<noteq> [] \<and> length (pq_options q) = 4 \<and> 0 \<le> correctIndex q)
            (finish (parse_lines (pasted_lines txt) [] None))"
    by (cases "parse_lines (pasted_lines txt) [] None")
       (simp add: parseQuestionText_def finish_def Let_def split: option.splits)
  also have "finish (parse_lines (pasted_lines txt) [] None)
               = map question_of_block (blocks (pasted_lines txt))"
    by (simp add: parse_lines_blocks absorb_new_question)
  finally show ?thesis
    by (simp add: filter_map o_def accepted_question_of_block)
qed

lemma accepted_correctIndex:
  assumes "accepted_block b"
  shows "correctIndex (question_of_block b) = int (last (marked_options b))"
  using assms by (simp add: accepted_block_def question_of_block_def split: list.splits)

lemma one_empty_option_block_blocks:
  "blocks (pasted_lines one_empty_option_block) =
     [(units ''Question: Pick one'', map units [''A) *'', ''B) no'', ''C) maybe'', ''D) never''])]"
  by (simp add: one_empty_option_block_def parse_defs)

lemma one_empty_option_block_accepted:
  "accepted_block (units ''Question: Pick one'', map units [''A) *'', ''B) no'', ''C) maybe'', ''D) never''])"
  "marked_options (units ''Question: Pick one'', map units [''A) *'', ''B) no'', ''C) maybe'', ''D) never'']) = [0]"
  by (simp_all add: accepted_block_def marked_options_def block_options_def parse_defs upt_rec nth_Cons')

text \<open>
  C4. The claim: a question is accepted only if exactly one of its options is marked
  correct (and its four options are non-empty). The parser keeps a question whose
  \<open>correctIndex\<close> is at least 0, and every marked option line overwrites the index: a
  question with two marked options is accepted, the later mark winning.
\<close>

theorem parseQuestionText_accepts_two_marks:
  "length (filter (\<lambda>line. is_option_line line \<and> 0x2A \<in> set line)
     (split_newline two_marks_block)) = 2
   \<and> parseQuestionText two_marks_block =
       [\<lparr>pq_text = units ''Pick one'', pq_options = map units [''yes'', ''no'', ''maybe'', ''never''],
         correctIndex = 1\<rparr>]"
  using two_marks_block_marked parse_two_marks_block by simp

text \<open>
  C4, as amended. For every text, the result is, in order, the questions of the accepted
  blocks of its lines and nothing else. An accepted block has a non-empty prompt, exactly
  four options and at least one marked option; the \<open>correctIndex\<close> of its question is
  the index of the last marked option: the option at that index is marked and no option
  after it is. Hence every question in the result has a non-empty prompt, exactly four
  options and a \<open>correctIndex\<close> from 0 to 3, and a block that fails is left out whole.
  The well-formed block of two questions parses to its two questions with their indices;
  a question with three options is dropped while the question after it is kept; a
  question with no marked option is dropped.
\<close>

theorem parseQuestionText_accepts:
  "parseQuestionText txt =
     map question_of_block (filter accepted_block (blocks (pasted_lines txt)))
   \<and> (\<forall>b \<in> set (blocks (pasted_lines txt)). accepted_block b \<longrightarrow>
        trim (drop 9 (fst b)) \<noteq> [] \<and> length (block_options b) = 4
        \<and> (\<exists>line \<in> set (block_options b). 0x2A \<in> set line)
        \<and> correctIndex (question_of_block b) = int (last (marked_options b))
        \<and> last (marked_options b) < 4
        \<and> 0x2A \<in> set (block_options b ! last (marked_options b))
        \<and> (\<forall>i. last (marked_options b) < i \<and> i < 4 \<longrightarrow> 0x2A \<notin> set (block_options b ! i)))
   \<and> (\<forall>q \<in> set (parseQuestionText txt).
        pq_text q \<noteq> [] \<and> length (pq_options q) = 4 \<and> 0 \<le> correctIndex q \<and> correctIndex q < 4)
   \<and> parseQuestionText two_question_block =
       [\<lparr>pq_text = units ''What is 2+2?'', pq_options = map units [''3'', ''4'', ''5'', ''6''],
         correctIndex = 1\<rparr>,
        \<lparr>pq_text = units ''Capital of France?'',
          pq_options = map units [''Paris'', ''Rome'', ''Berlin'', ''Madrid''], correctIndex = 0\<rparr>]
   \<and> parseQuestionText three_option_block =
       [\<lparr>pq_text = units ''Capital of France?'',
          pq_options = map units [''Paris'', ''Rome'', ''Berlin'', ''Madrid''], correctIndex = 0\<rparr>]
   \<and> parseQuestionText unmarked_block = []"
proof -
  have blocks: "parseQuestionText txt =
     map question_of_block (filter accepted_block (blocks (pasted_lines txt)))"
    by (rule parseQuestionText_blocks)
  have acc: "trim (drop 9 (fst b)) \<noteq> [] \<and> length (block_options b) = 4
        \<and> (\<exists>line \<in> set (block_options b). 0x2A \<in> set line)
        \<and> correctIndex (question_of_block b) = int (last (marked_options b))
        \<and> last (marked_options b) < 4
        \<and> 0x2A \<in> set (block_options b ! last (marked_options b))
        \<and> (\<forall>i. last (marked_options b) < i \<and> i < 4 \<longrightarrow> 0x2A \<notin> set (block_options b ! i))"
    if a: "accepted_block b" for b
  proof -
    have m: "marked_options b \<noteq> []" and n: "length (block_options b) = 4"
      using a by (simp_all add: accepted_block_def)
    show ?thesis
      using a accepted_block_marked [of b] accepted_correctIndex [OF a] marked_options_last [OF m] n
      by simp
  qed
  have range: "pq_text q \<noteq> [] \<and> length (pq_options q) = 4 \<and> 0 \<le> correctIndex q \<and> correctIndex q < 4"
    if "q \<in> set (parseQuestionText txt)" for q
  proof -
    from that obtain b where b: "accepted_block b" "q = question_of_block b"
      unfolding blocks by auto
    from acc [OF b(1)] accepted_question_of_block [of b] b show ?thesis by simp
  qed
  show ?thesis
    using blocks acc range parse_two_question_block parse_three_option_block parse_unmarked_block
    by (intro conjI ballI impI) blast+
qed

theorem parseQuestionText_accepts_witness:
  "blocks (pasted_lines one_empty_option_block) =
     [(units ''Question: Pick one'', map units [''A) *'', ''B) no'', ''C) maybe'', ''D) never''])]
   \<and> accepted_block
       (units ''Question: Pick one'', map units [''A) *'', ''B) no'', ''C) maybe'', ''D) never''])
   \<and> marked_options
       (units ''Question: Pick one'', map units [''A) *'', ''B) no'', ''C) maybe'', ''D) never'']) = [0]
   \<and> parseQuestionText one_empty_option_block =
       [question_of_block
          (units ''Question: Pick one'', map units [''A) *'', ''B) no'', ''C) maybe'', ''D) never''])]
   \<and> correctIndex (question_of_block
          (units ''Question: Pick one'', map units [''A) *'', ''B) no'', ''C) maybe'', ''D) never''])) = 0
   \<and> list_all (\<lambda>q. pq_text q \<noteq> [] \<and> length (pq_options q) = 4
                \<and> 0 \<le> correctIndex q \<and> correctIndex q < 4)
       (parseQuestionText one_empty_option_block)
   \<and> length (parseQuestionText one_empty_option_block) = 1"
proof -
  let ?b = "(units ''Question: Pick one'', map units [''A) *'', ''B) no'', ''C) maybe'', ''D) never''])"
  note th = parseQuestionText_accepts [of one_empty_option_block]
  note bl = one_empty_option_block_blocks
  note acc = one_empty_option_block_accepted
  have 1: "parseQuestionText one_empty_option_block = [question_of_block ?b]"
    using th acc(1) unfolding bl by simp
  have "correctIndex (question_of_block ?b) = int (last (marked_options ?b))"
    using th acc(1) unfolding bl by simp
  then have 2: "correctIndex (question_of_block ?b) = 0"
    unfolding acc(2) by simp
  have 3: "list_all (\<lambda>q. pq_text q \<noteq> [] \<and> length (pq_options q) = 4
                \<and> 0 \<le> correctIndex q \<and> correctIndex q < 4)
       (parseQuestionText one_empty_option_block)"
    using th by (simp add: list_all_iff)
  have 4: "length (parseQuestionText one_empty_option_block) = 1"
    using 1 by simp
  from bl acc 1 2 3 4 show ?thesis by (intro conjI)
qed

section \<open>Properties of the repositories\<close>

lemma set_insort_by: "set (insort_by le x xs) = insert x (set xs)"
  by (induction xs) auto

lemma set_sort_by: "set (sort_by le xs) = set xs"
  by (induction xs) (simp_all add: sort_by_def set_insort_by)

lemma matches_append: "matches (cs @ ds) d = (matches cs d \<and> matches ds d)"
  by (induction cs d rule: matches.induct) auto

lemma set_take_sort_by:
  "set (take n (sort_by le xs)) \<subseteq> set xs" "set (take n (rev (sort_by le xs))) \<subseteq> set xs"
  using set_take_subset [of n "sort_by le xs"] set_take_subset [of n "rev (sort_by le xs)"]
  by (simp_all add: set_sort_by)

lemma getDocs_subset:
  assumes "getDocs col cs = Inr found"
  shows "set found \<subseteq> set (filter (\<lambda>(i, d). matches cs d) col)"
proof -
  let ?m = "filter (\<lambda>(i, d). matches cs d) col"
  obtain ordered where o: "set ordered \<subseteq> set ?m"
    and f: "found = ordered \<or> (\<exists>n. found = take n ordered)"
  proof (cases "ordering cs")
    case None
    then have "found = ?m \<or> (\<exists>n. found = take n ?m)"
      using assms by (auto simp: getDocs_def Let_def split: option.splits if_splits)
    then show ?thesis using that [of ?m] by simp
  next
    case (Some fd)
    obtain f dir where fd: "fd = (f, dir)" by (cases fd) auto
    have dir: "dir = ''asc'' \<or> dir = ''desc''"
      using assms Some fd by (auto simp: getDocs_def Let_def split: if_splits)
    let ?o = "if dir = ''asc'' then sort_by (doc_le f) ?m else rev (sort_by (doc_le f) ?m)"
    have "found = ?o \<or> (\<exists>n. found = take n ?o)"
      using assms Some fd dir by (auto simp: getDocs_def Let_def split: option.splits if_splits)
    moreover have "set ?o \<subseteq> set ?m" by (simp add: set_sort_by)
    ultimately show ?thesis using that [of ?o] by blast
  qed
  from f show ?thesis
  proof
    assume "found = ordered"
    then show ?thesis using o by simp
  next
    assume "\<exists>n. found = take n ordered"
    then obtain n where "found = take n ordered" by blast
    then show ?thesis using o set_take_subset [of n ordered] by auto
  qed
qed

lemma getDocs_found:
  assumes "getDocs col cs = Inr found" and "p \<in> set found"
  shows "p \<in> set col \<and> matches cs (snd p)"
  using getDocs_subset [OF assms(1)] assms(2) by auto

lemma with_id_field: "f \<noteq> ''id'' \<Longrightarrow> with_id p f = snd p f"
  by (simp add: with_id_def map_add_def split: option.splits)

lemma to_attempt_field:
  assumes "to_attempt now p = Inr a" and "f \<noteq> ''id''" and "f \<noteq> ''attemptedAt''"
  shows "att_fields a f = snd p f"
  using assms
  by (auto simp: to_attempt_def with_id_field split: option.splits fs_value.splits)

lemma to_attempts_field:
  assumes "to_attempts now ps = Inr as" and "a \<in> set as"
    and "f \<noteq> ''id''" and "f \<noteq> ''attemptedAt''"
  shows "\<exists>p \<in> set ps. att_fields a f = snd p f"
  using assms(1,2)
proof (induction ps arbitrary: as)
  case Nil
  then show ?case by simp
next
  case (Cons p ps)
  then obtain b bs where b: "to_attempt now p = Inr b" "to_attempts now ps = Inr bs" "as = b # bs"
    by (auto split: sum.splits)
  show ?case
  proof (cases "a = b")
    case True
    then show ?thesis using to_attempt_field [OF b(1) assms(3) assms(4)] by simp
  next
    case False
    then have "a \<in> set bs" using Cons.prems(2) b(3) by simp
    then show ?thesis using Cons.IH [OF b(2)] by auto
  qed
qed

lemma set_slice0: "set (slice0 n xs) \<subseteq> set xs"
  by (auto simp: slice0_def dest: in_set_takeD)

lemma getAttemptsForUser_Inr:
  assumes "getAttemptsForUser am opts now w = (Inr atts, w')"
  obtains uid found attempts where
    "currentUser_uid am = Some uid"
    "getDocs (attempts_col w) [Where ''userId'' (VStr uid)] = Inr found"
    "to_attempts now found = Inr attempts"
    "set atts \<subseteq> set attempts"
    "\<exists>rest. atts = slice0 (case limitCount opts of None \<Rightarrow> 50 | Some n \<Rightarrow> n)
                     (sort_key (\<lambda>a. - attemptedAt a) rest)"
proof -
  from assms obtain uid where uid: "currentUser_uid am = Some uid"
    by (auto simp: getAttemptsForUser_def Let_def split: if_splits option.splits)
  from assms uid obtain found where found: "getDocs (attempts_col w) [Where ''userId'' (VStr uid)] = Inr found"
    by (auto simp: getAttemptsForUser_def Let_def isAuthenticated_def split: if_splits sum.splits)
  from assms uid found obtain attempts where att: "to_attempts now found = Inr attempts"
    by (auto simp: getAttemptsForUser_def Let_def isAuthenticated_def split: if_splits sum.splits)
  let ?by_subject = "(case subject opts of None \<Rightarrow> attempts
       | Some s \<Rightarrow> if s \<noteq> [] then filter (\<lambda>a. att_fields a ''subject'' = Some (VStr s)) attempts
                   else attempts)"
  let ?by_date = "(if startDate opts \<noteq> None \<or> endDate opts \<noteq> None
       then filter (\<lambda>a. (case startDate opts of None \<Rightarrow> True | Some d \<Rightarrow> \<not> attemptedAt a < d)
                      \<and> (case endDate opts of None \<Rightarrow> True | Some d \<Rightarrow> \<not> attemptedAt a > d)) ?by_subject
       else ?by_subject)"
  have eq: "atts = slice0 (case limitCount opts of None \<Rightarrow> 50 | Some n \<Rightarrow> n)
                     (sort_key (\<lambda>a. - attemptedAt a) ?by_date)"
    using assms uid found att
    by (auto simp: getAttemptsForUser_def Let_def isAuthenticated_def split: if_splits)
  have "set ?by_subject \<subseteq> set attempts" by (auto split: option.splits)
  then have "set ?by_date \<subseteq> set attempts" by auto
  then have sub: "set atts \<subseteq> set attempts"
    using set_slice0 [of "case limitCount opts of None \<Rightarrow> 50 | Some n \<Rightarrow> n"
        "sort_key (\<lambda>a. - attemptedAt a) ?by_date"]
    unfolding eq by auto
  show thesis
    by (rule that [OF uid found att sub]) (use eq in blast)
qed

lemma demo_attempts_u1:
  "getAttemptsForUser student no_options 5000 demo_world =
     (Inr [\<lparr>att_fields = [''id'' \<mapsto> VStr ''a3'', ''userId'' \<mapsto> VStr ''u1'',
                           ''subject'' \<mapsto> VStr ''Physics'', ''score'' \<mapsto> VNum 70],
              attemptedAt = 3000\<rparr>,
           \<lparr>att_fields = [''id'' \<mapsto> VStr ''a1'', ''userId'' \<mapsto> VStr ''u1'',
                           ''subject'' \<mapsto> VStr ''Biology'', ''score'' \<mapsto> VNum 50],
              attemptedAt = 1000\<rparr>],
      demo_world\<lparr>store_calls := [''getDocs attempts'']\<rparr>)"
  by (simp add: getAttemptsForUser_def student_def no_options_def demo_world_def
      isAuthenticated_def getDocs_def Let_def to_attempt_def with_id_def slice0_def)

text \<open>
  C6. Whatever the subject, the dates and the limit asked for, every attempt that
  \<open>getAttemptsForUser\<close> returns carries the uid of the signed-in user as its
  \<open>userId\<close>; without a signed-in user nothing is returned.
\<close>

theorem getAttemptsForUser_own_attempts_only:
  assumes "getAttemptsForUser am opts now w = (Inr atts, w')"
  shows "isAuthenticated am
       \<and> (\<forall>a \<in> set atts. att_fields a ''userId'' = map_option VStr (currentUser_uid am))"
proof -
  from assms obtain uid found attempts where
    uid: "currentUser_uid am = Some uid" and
    found: "getDocs (attempts_col w) [Where ''userId'' (VStr uid)] = Inr found" and
    att: "to_attempts now found = Inr attempts" and sub: "set atts \<subseteq> set attempts"
    by (rule getAttemptsForUser_Inr)
  have "att_fields a ''userId'' = Some (VStr uid)" if "a \<in> set atts" for a
  proof -
    from that sub have "a \<in> set attempts" by auto
    then obtain p where p: "p \<in> set found" "att_fields a ''userId'' = snd p ''userId''"
      using to_attempts_field [OF att, of a "''userId''"] by auto
    from getDocs_found [OF found p(1)] have "snd p ''userId'' = Some (VStr uid)" by simp
    with p(2) show ?thesis by simp
  qed
  then show ?thesis using uid by (simp add: isAuthenticated_def)
qed

theorem getAttemptsForUser_own_attempts_only_witness:
  "isAuthenticated student
   \<and> map (\<lambda>a. att_fields a ''userId'') (projr (fst (getAttemptsForUser student no_options 5000 demo_world)))
       = [Some (VStr ''u1''), Some (VStr ''u1'')]
   \<and> map (\<lambda>a. att_fields a ''id'') (projr (fst (getAttemptsForUser student no_options 5000 demo_world)))
       = [Some (VStr ''a3''), Some (VStr ''a1'')]"
  using getAttemptsForUser_own_attempts_only [OF demo_attempts_u1] demo_attempts_u1
  by (simp add: student_def)






text \<open>
  C7. For a caller who is not an admin, \<open>createPassage\<close>, \<open>updatePassage\<close> and
  \<open>deletePassage\<close> fail with the error \<open>Admin privileges required\<close> and leave the
  world as it was: no call to the store, no loader, no change to the stored passages.
\<close>

theorem passage_writes_need_admin:
  assumes "\<not> isAdmin am"
  shows "createPassage am passageData newId now w = (Inl AdminRequired, w)
       \<and> updatePassage am passageId updates now w = (Inl AdminRequired, w)
       \<and> deletePassage am passageId w = (Inl AdminRequired, w)"
  using assms by (simp add: createPassage_def updatePassage_def deletePassage_def)

theorem passage_writes_need_admin_witness:
  "\<not> isAdmin student
   \<and> createPassage student [''title'' \<mapsto> VStr ''New''] ''pc'' 300 demo_world = (Inl AdminRequired, demo_world)
   \<and> updatePassage student ''pa'' [''isPublished'' \<mapsto> VBool False] 300 demo_world = (Inl AdminRequired, demo_world)
   \<and> deletePassage student ''pa'' demo_world = (Inl AdminRequired, demo_world)"
  using passage_writes_need_admin [of student "[''title'' \<mapsto> VStr ''New'']" "''pc''" 300 demo_world
      "''pa''" "[''isPublished'' \<mapsto> VBool False]"]
  by (simp add: isAdmin_def student_def)

lemma admin_writes:
  "map fst (passages_col (snd (createPassage admin [''title'' \<mapsto> VStr ''New''] ''pc'' 300 demo_world)))
     = [''pa'', ''pb'', ''pc'']"
  "map fst (passages_col (snd (deletePassage admin ''pa'' demo_world))) = [''pb'']"
  "map (\<lambda>p. snd p ''isPublished'')
     (passages_col (snd (updatePassage admin ''pa'' [''isPublished'' \<mapsto> VBool False] 300 demo_world)))
     = [Some (VBool False), Some (VBool False)]"
  "store_calls (snd (deletePassage admin ''pa'' demo_world)) = [''deleteDoc passages'']"
  by (simp_all add: createPassage_def updatePassage_def deletePassage_def isAdmin_def admin_def
      demo_world_def Let_def)

lemma limit_of_append:
  "limit_of (cs @ ds) = (case limit_of cs of None \<Rightarrow> limit_of ds | Some n \<Rightarrow> Some n)"
  by (induction cs rule: limit_of.induct) auto

lemma getDocs_unlimited:
  assumes "getDocs col cs = Inr found" and "limit_of cs = None"
  shows "set found = set (filter (\<lambda>(i, d). matches cs d) col)"
  using assms
  by (auto simp: getDocs_def Let_def set_sort_by split: option.splits if_splits)

lemma passage_constraints_listed:
  "matches (passage_constraints am opts) d = spec_listed am opts d"
  by (auto simp: passage_constraints_def matches_append spec_listed_def spec_publishedOnly_def
      split: option.splits)

lemma passage_constraints_unlimited:
  "limitCount opts = None \<or> limitCount opts = Some 0 \<Longrightarrow> limit_of (passage_constraints am opts) = None"
  by (auto simp: passage_constraints_def limit_of_append split: option.splits)

lemma getPassages_Inr:
  assumes "getPassages am opts w = (Inr ps, w')"
  obtains found where "getDocs (passages_col w) (passage_constraints am opts) = Inr found"
    "ps = map with_id found"
  using assms by (auto simp: getPassages_def Let_def split: if_splits sum.splits)

lemma demo_passages_student:
  "getPassages student default_options demo_world =
     (Inr [[''id'' \<mapsto> VStr ''pa'', ''title'' \<mapsto> VStr ''Cells'', ''subject'' \<mapsto> VStr ''Biology'',
            ''isPublished'' \<mapsto> VBool True, ''createdAt'' \<mapsto> VTime 100]],
      demo_world\<lparr>store_calls := [''getDocs passages'']\<rparr>)"
  by (simp add: getPassages_def passage_constraints_def default_options_def student_def isAdmin_def
      demo_world_def getDocs_def sort_by_def with_id_def Let_def)

lemma demo_passages_admin_result:
  "getPassages admin default_options demo_world =
     (Inr [[''id'' \<mapsto> VStr ''pb'', ''title'' \<mapsto> VStr ''Draft'', ''subject'' \<mapsto> VStr ''Biology'',
            ''isPublished'' \<mapsto> VBool False, ''createdAt'' \<mapsto> VTime 200],
           [''id'' \<mapsto> VStr ''pa'', ''title'' \<mapsto> VStr ''Cells'', ''subject'' \<mapsto> VStr ''Biology'',
            ''isPublished'' \<mapsto> VBool True, ''createdAt'' \<mapsto> VTime 100]],
      demo_world\<lparr>store_calls := [''getDocs passages'']\<rparr>)"
  by (simp add: getPassages_def passage_constraints_def default_options_def admin_def isAdmin_def
      demo_world_def getDocs_def sort_by_def doc_le_def with_id_def Let_def)

text \<open>
  C8. \<open>getPassages\<close> called without \<open>publishedOnly\<close> behaves as the call with
  \<open>publishedOnly\<close> set to whether the caller is not an admin. What a call returns are
  passages the specification lists, and all of them when no limit is asked for: with
  \<open>publishedOnly\<close> true, given or by default for a caller who is not an admin, every
  passage returned has \<open>isPublished = true\<close>; with \<open>publishedOnly\<close> false, given or
  by default for an admin, the unpublished passages are returned with the published ones.
\<close>

theorem getPassages_publishedOnly:
  "(publishedOnly opts = None \<longrightarrow>
      getPassages am opts w = getPassages am (opts\<lparr>publishedOnly := Some (\<not> isAdmin am)\<rparr>) w)
   \<and> (getPassages am opts w = (Inr ps, w') \<longrightarrow>
        set ps \<subseteq> with_id ` {x \<in> set (passages_col w). spec_listed am opts (snd x)}
        \<and> (limitCount opts = None \<or> limitCount opts = Some 0 \<longrightarrow>
             set ps = with_id ` {x \<in> set (passages_col w). spec_listed am opts (snd x)})
        \<and> (spec_publishedOnly am opts \<longrightarrow> (\<forall>p \<in> set ps. p ''isPublished'' = Some (VBool True))))"
proof (intro conjI impI)
  assume "publishedOnly opts = None"
  then have "passage_constraints am (opts\<lparr>publishedOnly := Some (\<not> isAdmin am)\<rparr>)
               = passage_constraints am opts"
    by (simp add: passage_constraints_def)
  then show "getPassages am opts w = getPassages am (opts\<lparr>publishedOnly := Some (\<not> isAdmin am)\<rparr>) w"
    by (simp add: getPassages_def Let_def)
next
  assume r: "getPassages am opts w = (Inr ps, w')"
  then obtain found where f: "getDocs (passages_col w) (passage_constraints am opts) = Inr found"
    and ps: "ps = map with_id found"
    by (rule getPassages_Inr)
  have "set found \<subseteq> {x \<in> set (passages_col w). spec_listed am opts (snd x)}"
    using getDocs_subset [OF f] by (auto simp: passage_constraints_listed)
  then show sub: "set ps \<subseteq> with_id ` {x \<in> set (passages_col w). spec_listed am opts (snd x)}"
    unfolding ps by auto
  {
    assume "limitCount opts = None \<or> limitCount opts = Some 0"
    then have "limit_of (passage_constraints am opts) = None"
      by (simp add: passage_constraints_unlimited)
    from getDocs_unlimited [OF f this]
    have "set found = {x \<in> set (passages_col w). spec_listed am opts (snd x)}"
      by (auto simp: passage_constraints_listed)
    then show "set ps = with_id ` {x \<in> set (passages_col w). spec_listed am opts (snd x)}"
      unfolding ps by simp
  }
  {
    assume po: "spec_publishedOnly am opts"
    show "\<forall>p \<in> set ps. p ''isPublished'' = Some (VBool True)"
    proof
      fix p assume "p \<in> set ps"
      with sub obtain x where x: "spec_listed am opts (snd x)" "p = with_id x" by auto
      from x(1) po have "snd x ''isPublished'' = Some (VBool True)"
        by (simp add: spec_listed_def)
      then show "p ''isPublished'' = Some (VBool True)"
        using x(2) by (simp add: with_id_field)
    qed
  }
qed

theorem getPassages_publishedOnly_witness:
  "publishedOnly default_options = None \<and> limitCount default_options = None
   \<and> \<not> isAdmin student \<and> isAdmin admin
   \<and> spec_publishedOnly student default_options \<and> \<not> spec_publishedOnly admin default_options
   \<and> getPassages student default_options demo_world
       = getPassages student (default_options\<lparr>publishedOnly := Some True\<rparr>) demo_world
   \<and> getPassages admin default_options demo_world
       = getPassages admin (default_options\<lparr>publishedOnly := Some False\<rparr>) demo_world
   \<and> map (\<lambda>p. p ''id'') (projr (fst (getPassages student default_options demo_world)))
       = [Some (VStr ''pa'')]
   \<and> map (\<lambda>p. p ''isPublished'') (projr (fst (getPassages student default_options demo_world)))
       = [Some (VBool True)]
   \<and> map (\<lambda>p. p ''id'') (projr (fst (getPassages admin default_options demo_world)))
       = [Some (VStr ''pb''), Some (VStr ''pa'')]
   \<and> map (\<lambda>p. p ''isPublished'') (projr (fst (getPassages admin default_options demo_world)))
       = [Some (VBool False), Some (VBool True)]
   \<and> set (projr (fst (getPassages admin default_options demo_world)))
       = set (map with_id (passages_col demo_world))"
proof -
  let ?pa = "[''id'' \<mapsto> VStr ''pa'', ''title'' \<mapsto> VStr ''Cells'', ''subject'' \<mapsto> VStr ''Biology'',
            ''isPublished'' \<mapsto> VBool True, ''createdAt'' \<mapsto> VTime 100]"
  let ?pb = "[''id'' \<mapsto> VStr ''pb'', ''title'' \<mapsto> VStr ''Draft'', ''subject'' \<mapsto> VStr ''Biology'',
            ''isPublished'' \<mapsto> VBool False, ''createdAt'' \<mapsto> VTime 200]"
  let ?w = "demo_world\<lparr>store_calls := [''getDocs passages'']\<rparr>"
  have na: "\<not> isAdmin student" by (simp add: isAdmin_def student_def)
  have ad: "isAdmin admin" by (simp add: isAdmin_def admin_def)
  have po: "publishedOnly default_options = None" by (simp add: default_options_def)
  have li: "limitCount default_options = None" by (simp add: default_options_def)
  have sp: "spec_publishedOnly student default_options"
    using na po by (simp add: spec_publishedOnly_def)
  have sa: "\<not> spec_publishedOnly admin default_options"
    using ad po by (simp add: spec_publishedOnly_def)
  note st = getPassages_publishedOnly [of default_options student demo_world "[?pa]" ?w]
  note at = getPassages_publishedOnly [of default_options admin demo_world "[?pb, ?pa]" ?w]
  have 1: "getPassages student default_options demo_world
          = getPassages student (default_options\<lparr>publishedOnly := Some True\<rparr>) demo_world"
    using st na po by simp
  have 2: "getPassages admin default_options demo_world
          = getPassages admin (default_options\<lparr>publishedOnly := Some False\<rparr>) demo_world"
    using at ad po by simp
  have "\<forall>p \<in> set [?pa]. p ''isPublished'' = Some (VBool True)"
    using st sp demo_passages_student by simp
  then have 3: "map (\<lambda>p. p ''isPublished'') (projr (fst (getPassages student default_options demo_world)))
       = [Some (VBool True)]"
    by (simp add: demo_passages_student)
  have 4: "map (\<lambda>p. p ''id'') (projr (fst (getPassages student default_options demo_world)))
       = [Some (VStr ''pa'')]"
    by (simp add: demo_passages_student)
  have 5: "map (\<lambda>p. p ''id'') (projr (fst (getPassages admin default_options demo_world)))
       = [Some (VStr ''pb''), Some (VStr ''pa'')]"
    by (simp add: demo_passages_admin_result)
  have 6: "map (\<lambda>p. p ''isPublished'') (projr (fst (getPassages admin default_options demo_world)))
       = [Some (VBool False), Some (VBool True)]"
    by (simp add: demo_passages_admin_result)
  have "set [?pb, ?pa] = with_id ` {x \<in> set (passages_col demo_world). spec_listed admin default_options (snd x)}"
    using at li demo_passages_admin_result by simp
  moreover have "\<forall>x \<in> set (passages_col demo_world). spec_listed admin default_options (snd x)"
    using sa by (simp add: spec_listed_def default_options_def demo_world_def)
  then have "{x \<in> set (passages_col demo_world). spec_listed admin default_options (snd x)}
               = set (passages_col demo_world)"
    by blast
  ultimately have "set [?pb, ?pa] = with_id ` set (passages_col demo_world)"
    by (simp only:)
  then have 7: "set (projr (fst (getPassages admin default_options demo_world)))
       = set (map with_id (passages_col demo_world))"
    by (simp add: demo_passages_admin_result)
  from po li na ad sp sa 1 2 4 3 5 6 7 show ?thesis by (intro conjI)
qed

end
